theory Spec2Isabelle
  imports Main "HOL-Library.Multiset"
begin

chapter \<open>The program\<close>

section \<open>Randomness and the shuffle primitive (src/bot.js, shuffle)\<close>

text \<open>
  The only source of randomness is \<^verbatim>\<open>crypto.randomInt(min, max)\<close>, which returns an
  integer in the half-open range from \<^verbatim>\<open>min\<close> up to, not including, \<^verbatim>\<open>max\<close>. The
  model makes the random source an explicit input: \<open>rng d\<close> is the raw outcome of the
  \<open>d\<close>-th draw of a run, reduced into the requested range, and every function that
  draws takes the number of draws made so far and returns the new count. Every result
  that \<^verbatim>\<open>crypto.randomInt\<close> can return is the reduction of some raw outcome, so a
  statement for all \<open>rng\<close> covers every behaviour of the program.
\<close>

definition randomInt :: "(nat \<Rightarrow> nat) \<Rightarrow> nat \<Rightarrow> nat \<Rightarrow> nat \<Rightarrow> nat" where
  "randomInt rng d lo hi = lo + rng d mod (hi - lo)"

text \<open>
  \<^verbatim>\<open>for (let i = array.length - 1; i > 0; i--) { j = randomInt(0, i + 1); swap i, j }\<close>.
  The first argument of the loop is the current value of \<open>i\<close>; the loop stops at 0.
  The destructuring swap reads both cells before it writes either.
\<close>

fun shuffle_loop :: "(nat \<Rightarrow> nat) \<Rightarrow> nat \<Rightarrow> 'a list \<Rightarrow> nat \<Rightarrow> 'a list \<times> nat" where
  "shuffle_loop rng 0 arr d = (arr, d)"
| "shuffle_loop rng (Suc m) arr d =
     (let j = randomInt rng d 0 (Suc m + 1)
      in shuffle_loop rng m (arr[Suc m := arr ! j, j := arr ! Suc m]) (Suc d))"

text \<open>
  For the empty array \<^verbatim>\<open>array.length - 1\<close> is -1 and the loop body never runs; the
  truncated subtraction of \<open>nat\<close> gives 0 there, with the same effect.
\<close>

definition shuffle :: "'a list \<Rightarrow> (nat \<Rightarrow> nat) \<Rightarrow> nat \<Rightarrow> 'a list \<times> nat" where
  "shuffle arr rng d = shuffle_loop rng (length arr - 1) arr d"

section \<open>Errors thrown by the utility functions\<close>

text \<open>
  Both utility functions throw a plain \<^verbatim>\<open>Error\<close> with a message. The two messages of
  \<^verbatim>\<open>assignParticipantsToGroups\<close> ("Number of groups must be at least 1." and "Number
  of groups cannot exceed the number of participants.") are the two reasons of
  \<open>InvalidGroupCount\<close>; the message of \<^verbatim>\<open>assignSecretAngels\<close> lists the members of the
  group it could not match, carried by \<open>AssignmentInfeasible\<close>.
\<close>

datatype group_count_fault = BelowOne | ExceedsParticipants

datatype error = InvalidGroupCount group_count_fault | AssignmentInfeasible "string list"

section \<open>Grouping (src/bot.js, assignParticipantsToGroups)\<close>

text \<open>\<^verbatim>\<open>array.slice(start, end)\<close> for indices that are not negative; both ends are clamped.\<close>

definition slice :: "'a list \<Rightarrow> nat \<Rightarrow> nat \<Rightarrow> 'a list" where
  "slice arr start end = take (end - start) (drop start arr)"

text \<open>
  The loop \<^verbatim>\<open>for (let i = 0; i < numGroups; i++)\<close> with its three mutable variables
  \<open>i\<close>, \<open>startIndex\<close> and \<open>groups\<close>. \<open>plen\<close> is \<^verbatim>\<open>participants.length\<close>.
\<close>

function groupLoop ::
  "string list \<Rightarrow> nat \<Rightarrow> nat \<Rightarrow> nat \<Rightarrow> nat \<Rightarrow> nat \<Rightarrow> nat \<Rightarrow> string list list \<Rightarrow> string list list"
where
  "groupLoop shuffled plen base remainder n i startIndex groups =
     (if i < n then
        let groupSize0 = base + (if i < remainder then 1 else 0);
            groupSize = (if groupSize0 = 0 \<and> plen > 0 then 1 else groupSize0);
            grp = slice shuffled startIndex (startIndex + groupSize);
            groups' = (if length grp > 0 then groups @ [grp] else groups)
        in groupLoop shuffled plen base remainder n (i + 1) (startIndex + groupSize) groups'
      else groups)"
  by pat_completeness auto
termination
  by (relation "measure (\<lambda>(shuffled, plen, base, remainder, n, i, startIndex, groups). n - i)") auto

declare groupLoop.simps [simp del]

text \<open>
  The requested count is an integer that may be zero or negative. Past the two guards
  it is at least 1, so \<^verbatim>\<open>Math.floor(length / numGroups)\<close> and \<^verbatim>\<open>length % numGroups\<close>
  are the quotient and remainder of natural numbers.
\<close>

definition assignParticipantsToGroups ::
  "string list \<Rightarrow> int \<Rightarrow> (nat \<Rightarrow> nat) \<Rightarrow> nat \<Rightarrow> (error + string list list) \<times> nat"
where
  "assignParticipantsToGroups ps numGroups rng d =
     (if length ps = 0 then (Inr [], d)
      else if numGroups < 1 then (Inl (InvalidGroupCount BelowOne), d)
      else if numGroups > int (length ps) then (Inl (InvalidGroupCount ExceedsParticipants), d)
      else
        let (shuffled, d') = shuffle ps rng d;
            base = length ps div nat numGroups;
            remainder = length ps mod nat numGroups;
            groups = groupLoop shuffled (length ps) base remainder (nat numGroups) 0 0 []
        in (Inr (filter (\<lambda>g. length g > 0) groups), d'))"

section \<open>Restricted matching (src/bot.js, isRestricted and assignSecretAngels)\<close>

text \<open>
  A restriction list is an array of arrays of names. Every caller passes an array, so
  the guard \<^verbatim>\<open>!restrictions\<close> never fires; an entry counts only if it has exactly two
  elements.
\<close>

fun isRestricted :: "string \<Rightarrow> string \<Rightarrow> string list list \<Rightarrow> bool" where
  "isRestricted g r [] = False"
| "isRestricted g r (pair # rest) =
     (if length pair = 2 \<and>
         ((pair ! 0 = g \<and> pair ! 1 = r) \<or> (pair ! 0 = r \<and> pair ! 1 = g))
      then True
      else isRestricted g r rest)"

record match =
  giver :: string
  receiver :: string

text \<open>
  The inner loop \<^verbatim>\<open>for (let i = 0; i < n; i++)\<close> of one attempt: \<open>None\<close> when it
  breaks with \<^verbatim>\<open>isValid = false\<close>, otherwise the collected \<^verbatim>\<open>potentialMatches\<close>.
\<close>

function matchLoop ::
  "string list \<Rightarrow> string list list \<Rightarrow> nat \<Rightarrow> nat \<Rightarrow> match list \<Rightarrow> match list option"
where
  "matchLoop shuffledGroup restrictions n i potentialMatches =
     (if i < n then
        let g = shuffledGroup ! i;
            r = shuffledGroup ! ((i + 1) mod n)
        in if g = r then None
           else if isRestricted g r restrictions then None
           else matchLoop shuffledGroup restrictions n (i + 1)
                  (potentialMatches @ [\<lparr>giver = g, receiver = r\<rparr>])
      else Some potentialMatches)"
  by pat_completeness auto
termination
  by (relation "measure (\<lambda>(shuffledGroup, restrictions, n, i, potentialMatches). n - i)") auto

declare matchLoop.simps [simp del]

definition maxRetries :: nat where
  "maxRetries = 100"

text \<open>
  The outer loop \<^verbatim>\<open>while (attempts < maxRetries)\<close>: each attempt shuffles a fresh copy
  of the group and returns at once when the inner loop accepts it; when the loop ends
  the function throws.
\<close>

function attemptLoop ::
  "string list \<Rightarrow> string list list \<Rightarrow> (nat \<Rightarrow> nat) \<Rightarrow> nat \<Rightarrow> nat \<Rightarrow> (error + match list) \<times> nat"
where
  "attemptLoop grp restrictions rng attempts d =
     (if attempts < maxRetries then
        let (shuffledGroup, d') = shuffle grp rng d
        in case matchLoop shuffledGroup restrictions (length grp) 0 [] of
             Some potentialMatches \<Rightarrow> (Inr potentialMatches, d')
           | None \<Rightarrow> attemptLoop grp restrictions rng (attempts + 1) d'
      else (Inl (AssignmentInfeasible grp), d))"
  by pat_completeness auto
termination
  by (relation "measure (\<lambda>(grp, restrictions, rng, attempts, d). maxRetries - attempts)") auto

declare attemptLoop.simps [simp del]

definition assignSecretAngels ::
  "string list \<Rightarrow> string list list \<Rightarrow> (nat \<Rightarrow> nat) \<Rightarrow> nat \<Rightarrow> (error + match list) \<times> nat"
where
  "assignSecretAngels grp restrictions rng d =
     (if length grp < 2 then (Inr [], d)
      else attemptLoop grp restrictions rng 0 d)"

section \<open>Notions used to state the matching properties\<close>


text \<open>
  The cyclic order passes both checks of an attempt: no member is followed by an equal
  name, and no successor pair is restricted.
\<close>

definition cycleAllowed :: "string list \<Rightarrow> string list list \<Rightarrow> bool" where
  "cycleAllowed order restrictions =
     list_all
       (\<lambda>i. order ! i \<noteq> order ! ((i + 1) mod length order) \<and>
            \<not> isRestricted (order ! i) (order ! ((i + 1) mod length order)) restrictions)
       [0..<length order]"

text \<open>The assignment that gives every member of a cyclic order to its successor.\<close>

definition cyclePairs :: "string list \<Rightarrow> match list" where
  "cyclePairs order =
     map (\<lambda>i. \<lparr>giver = order ! i, receiver = order ! ((i + 1) mod length order)\<rparr>) [0..<length order]"

text \<open>
  Two concrete random sources: one whose every draw yields the lowest index, and one
  whose \<open>d\<close>-th raw outcome is \<open>d\<close>.
\<close>

definition lowestIndexDraws :: "nat \<Rightarrow> nat" where
  "lowestIndexDraws d = 0"

definition countingDraws :: "nat \<Rightarrow> nat" where
  "countingDraws d = d"

text \<open>Cutting an array into consecutive slices of the given sizes.\<close>

fun slices :: "'a list \<Rightarrow> nat \<Rightarrow> nat list \<Rightarrow> 'a list list" where
  "slices arr start [] = []"
| "slices arr start (s # ss) = slice arr start (start + s) # slices arr (start + s) ss"

section \<open>Strings\<close>

text \<open>
  A JavaScript string is a sequence of UTF-16 code units and \<^verbatim>\<open>.length\<close> counts them.
  The model uses HOL strings, one character per code unit, which covers the code units
  below 256. Among those, the characters that \<^verbatim>\<open>trim\<close> strips and \<^verbatim>\<open>\s\<close> matches
  are tab, line feed, vertical tab, form feed, carriage return, space and the no-break
  space.
\<close>

definition isWhiteSpace :: "char \<Rightarrow> bool" where
  "isWhiteSpace c =
     (c = CHR 0x09 \<or> c = CHR 0x0A \<or> c = CHR 0x0B \<or> c = CHR 0x0C \<or> c = CHR 0x0D \<or>
      c = CHR 0x20 \<or> c = CHR 0xA0)"

definition trimStart :: "string \<Rightarrow> string" where
  "trimStart s = dropWhile isWhiteSpace s"

definition trim :: "string \<Rightarrow> string" where
  "trim s = rev (dropWhile isWhiteSpace (rev (dropWhile isWhiteSpace s)))"

text \<open>
  \<^verbatim>\<open>toLowerCase\<close> on code units below 256: the letters A to Z and the capital letters
  of the Latin-1 block (0xC0 to 0xDE, without the multiplication sign 0xD7) move up by
  32; everything else stays.
\<close>

definition lowerChar :: "char \<Rightarrow> char" where
  "lowerChar c =
     (let k = (of_char c :: nat)
      in if (65 \<le> k \<and> k \<le> 90) \<or> (192 \<le> k \<and> k \<le> 222 \<and> k \<noteq> 215)
         then char_of (k + 32) else c)"

definition toLowerCase :: "string \<Rightarrow> string" where
  "toLowerCase s = map lowerChar s"

text \<open>
  \<^verbatim>\<open>s.split(sep)\<close> for a separator of one character: the pieces between the
  separators, always at least one piece.
\<close>

fun split :: "char \<Rightarrow> string \<Rightarrow> string list" where
  "split sep [] = [[]]"
| "split sep (c # cs) =
     (if c = sep then [] # split sep cs
      else (case split sep cs of
              piece # pieces \<Rightarrow> (c # piece) # pieces
            | [] \<Rightarrow> [[c]]))"

definition startsWith :: "string \<Rightarrow> string \<Rightarrow> bool" where
  "startsWith s prefix = (take (length prefix) s = prefix)"

text \<open>\<^verbatim>\<open>s.replace(/c/g, replacement)\<close> for a pattern of one literal character.\<close>

definition replaceAll :: "char \<Rightarrow> string \<Rightarrow> string \<Rightarrow> string" where
  "replaceAll c replacement s = concat (map (\<lambda>x. if x = c then replacement else [x]) s)"

section \<open>Input validation (src/security.js)\<close>

definition MAX_NAME_LENGTH :: nat where
  "MAX_NAME_LENGTH = 100"

definition MAX_WISHLIST_LENGTH :: nat where
  "MAX_WISHLIST_LENGTH = 1000"

definition MAX_RESTRICTIONS_INPUT_LENGTH :: nat where
  "MAX_RESTRICTIONS_INPUT_LENGTH = 5000"

text \<open>
  The validators test \<^verbatim>\<open>typeof input !== 'string'\<close>; their models take a string, and
  the callers, which may hold a message without text, handle the missing text as the
  validator would.
\<close>

definition sanitizeInput :: "string \<Rightarrow> string" where
  "sanitizeInput input =
     trim (replaceAll (CHR ''/'') ''&#x2F;''
          (replaceAll (CHR 0x27) ''&#x27;''
          (replaceAll (CHR 0x22) ''&quot;''
          (replaceAll (CHR ''>'') ''&gt;''
          (replaceAll (CHR ''<'') ''&lt;'' input)))))"

text \<open>The character class of the name pattern: word characters, white space, hyphen, apostrophe.\<close>

definition isWordChar :: "char \<Rightarrow> bool" where
  "isWordChar c =
     (let k = (of_char c :: nat)
      in (48 \<le> k \<and> k \<le> 57) \<or> (65 \<le> k \<and> k \<le> 90) \<or> (97 \<le> k \<and> k \<le> 122) \<or> k = 95)"

definition isNameChar :: "char \<Rightarrow> bool" where
  "isNameChar c = (isWordChar c \<or> isWhiteSpace c \<or> c = CHR ''-'' \<or> c = CHR 0x27)"

definition validateName :: "string \<Rightarrow> string option" where
  "validateName nm =
     (if nm = [] then None
      else
        let sanitizedName = sanitizeInput (trim nm)
        in if length sanitizedName = 0 \<or> length sanitizedName > MAX_NAME_LENGTH then None
           else if \<not> list_all isNameChar sanitizedName then None
           else Some sanitizedName)"

definition validateWishlist :: "string \<Rightarrow> string" where
  "validateWishlist wl =
     (if wl = [] then []
      else
        let sanitizedWishlist = sanitizeInput (trim wl)
        in if length sanitizedWishlist > MAX_WISHLIST_LENGTH
           then take MAX_WISHLIST_LENGTH sanitizedWishlist
           else sanitizedWishlist)"

text \<open>
  \<^verbatim>\<open>parseInt(input, 10)\<close>: leading white space is skipped, one sign is read, and the
  longest run of decimal digits is the value; with no digit the result is NaN, modelled
  by \<open>None\<close>.
\<close>

definition isDigit :: "char \<Rightarrow> bool" where
  "isDigit c = (48 \<le> (of_char c :: nat) \<and> (of_char c :: nat) \<le> 57)"

definition digitsValue :: "string \<Rightarrow> nat" where
  "digitsValue ds = foldl (\<lambda>acc c. 10 * acc + ((of_char c :: nat) - 48)) 0 ds"

definition parseInt :: "string \<Rightarrow> int option" where
  "parseInt input =
     (let s = trimStart input;
          negative = (s \<noteq> [] \<and> hd s = CHR ''-'');
          unsigned = (if s \<noteq> [] \<and> (hd s = CHR ''-'' \<or> hd s = CHR ''+'') then tl s else s);
          ds = takeWhile isDigit unsigned
      in if ds = [] then None
         else Some (if negative then - int (digitsValue ds) else int (digitsValue ds)))"

definition validateNumber :: "string \<Rightarrow> int \<Rightarrow> int \<Rightarrow> int option" where
  "validateNumber input lo hi =
     (case parseInt input of
        None \<Rightarrow> None
      | Some num \<Rightarrow> if num < lo \<or> num > hi then None else Some num)"

text \<open>
  The loop over the lines of \<^verbatim>\<open>validateRestrictionsInput\<close>. It returns \<open>None\<close> (the
  source's \<^verbatim>\<open>null\<close>) at the first line that is not blank and is not a pair of two
  distinct known names; no statement of the \<^verbatim>\<open>try\<close> block can throw on a string.
\<close>

fun restrictionLines :: "string list \<Rightarrow> string list \<Rightarrow> string list list \<Rightarrow> string list list option" where
  "restrictionLines [] validParticipants restrictions = Some restrictions"
| "restrictionLines (line # rest) validParticipants restrictions =
     (let trimmedLine = trim line
      in if trimmedLine = [] then restrictionLines rest validParticipants restrictions
         else
           let pair = map trim (split (CHR '','') trimmedLine)
           in if length pair \<noteq> 2 \<or> list_ex (\<lambda>nm. nm = []) pair then None
              else if pair ! 0 \<notin> set validParticipants \<or>
                      pair ! 1 \<notin> set validParticipants then None
              else if pair ! 0 = pair ! 1 then None
              else restrictionLines rest validParticipants (restrictions @ [pair]))"

definition validateRestrictionsInput :: "string \<Rightarrow> string list \<Rightarrow> string list list option" where
  "validateRestrictionsInput input validParticipants =
     (if input = [] then Some []
      else if length input > MAX_RESTRICTIONS_INPUT_LENGTH then None
      else
        let trimmedInput = trim input
        in if toLowerCase trimmedInput = ''none'' \<or> trimmedInput = [] then Some []
           else restrictionLines (split (CHR 0x0A) trimmedInput) validParticipants [])"

section \<open>The restriction text format as the specification words it\<close>

text \<open>
  One pair per line, two names separated by a comma, each name trimmed. A line is well
  formed when it splits into exactly two non-empty trimmed names, both found in the
  roster and different from each other. The token "none" in any letter case, or text
  that is empty once trimmed, means zero restrictions; otherwise a single line that is
  not well formed invalidates the whole input. Blank lines carry no pair.
\<close>

definition lineNames :: "string \<Rightarrow> string list" where
  "lineNames line = map trim (split (CHR '','') line)"

definition wellFormedLine :: "string list \<Rightarrow> string \<Rightarrow> bool" where
  "wellFormedLine roster line =
     (case lineNames line of
        [a, b] \<Rightarrow> a \<noteq> [] \<and> b \<noteq> [] \<and> a \<in> set roster \<and> b \<in> set roster \<and> a \<noteq> b
      | _ \<Rightarrow> False)"

definition nonBlankLines :: "string \<Rightarrow> string list" where
  "nonBlankLines input = filter (\<lambda>l. l \<noteq> []) (map trim (split (CHR 0x0A) (trim input)))"

definition restrictionFormat :: "string \<Rightarrow> string list \<Rightarrow> string list list option" where
  "restrictionFormat input roster =
     (if toLowerCase (trim input) = ''none'' \<or> trim input = [] then Some []
      else if list_all (wellFormedLine roster) (nonBlankLines input)
           then Some (map lineNames (nonBlankLines input))
           else None)"

section \<open>The relational store\<close>

text \<open>
  The four tables created at start-up (src/bot.js, the \<^verbatim>\<open>CREATE TABLE\<close> statements):
  rows in insertion order, and the last value issued by each \<^verbatim>\<open>SERIAL\<close> key.
\<close>

record participant_row =
  p_id :: nat
  p_name :: string
  p_wishlist :: string

record group_row =
  g_group_id :: nat
  g_group_name :: string

record member_row =
  m_membership_id :: nat
  m_group_id :: nat
  m_participant_id :: nat

record assignment_row =
  a_assignment_id :: nat
  a_group_id :: nat
  a_giver_participant_id :: nat
  a_receiver_participant_id :: nat

record tables =
  tg_participants :: "participant_row list"
  tg_groups :: "group_row list"
  tg_group_members :: "member_row list"
  tg_assignments :: "assignment_row list"
  participants_seq :: nat
  groups_seq :: nat
  members_seq :: nat
  assignments_seq :: nat

text \<open>
  Modelled from the spec: the store itself (PostgreSQL behind \<^verbatim>\<open>client.query\<close>) is an
  external collaborator, consumed as a transactional API with query, begin, commit and
  rollback. \<open>committed\<close> is what every reader of the store sees; \<open>txn\<close> is the private
  working copy of the transaction that the single connection has open, if any.
  Statements issued while a transaction is open read and write the working copy;
  otherwise each statement commits on its own.
\<close>

record database =
  committed :: tables
  txn :: "tables option"

datatype statement =
    Begin
  | Commit
  | Rollback
  | TruncateGroupData
  | TruncateAll
  | InsertGroup string
  | InsertMember nat nat
  | InsertAssignment nat nat nat
  | UpsertParticipant string string
  | SelectParticipants
  | SelectParticipantsByName
  | SelectParticipantsById
  | SelectAssignment string
  | SelectParticipantExists string

datatype result =
    QueryError
  | Done
  | GroupId nat
  | ParticipantRefs "(nat \<times> string) list"
  | ParticipantRows "participant_row list"
  | ReceiverRows "(string \<times> string) list"
  | ExistsRows nat

definition visible :: "database \<Rightarrow> tables" where
  "visible dbs = (case txn dbs of None \<Rightarrow> committed dbs | Some t \<Rightarrow> t)"

definition store :: "tables \<Rightarrow> database \<Rightarrow> database" where
  "store t dbs = (case txn dbs of None \<Rightarrow> dbs\<lparr>committed := t\<rparr> | Some old \<Rightarrow> dbs\<lparr>txn := Some t\<rparr>)"

text \<open>
  \<^verbatim>\<open>INSERT INTO tg_participants (name, wishlist) VALUES ($1, $2) ON CONFLICT (name) DO
  UPDATE SET wishlist = EXCLUDED.wishlist\<close>. The key of the proposed row is drawn from
  the sequence before the conflict is detected.
\<close>

definition upsertParticipant :: "string \<Rightarrow> string \<Rightarrow> tables \<Rightarrow> tables" where
  "upsertParticipant nm wl t =
     (let key = Suc (participants_seq t)
      in if nm \<in> set (map p_name (tg_participants t))
         then t\<lparr>tg_participants :=
                  map (\<lambda>p. if p_name p = nm then p\<lparr>p_wishlist := wl\<rparr> else p) (tg_participants t),
                participants_seq := key\<rparr>
         else t\<lparr>tg_participants :=
                  tg_participants t @ [\<lparr>p_id = key, p_name = nm, p_wishlist = wl\<rparr>],
                participants_seq := key\<rparr>)"

text \<open>
  The join of the assignment lookup: receiver name and wishlist of every assignment
  whose giver's name equals the given one without regard to letter case.
\<close>

definition selectAssignment :: "string \<Rightarrow> tables \<Rightarrow> (string \<times> string) list" where
  "selectAssignment nm t =
     concat (map (\<lambda>a.
       concat (map (\<lambda>g.
         concat (map (\<lambda>r.
           if p_id g = a_giver_participant_id a \<and> p_id r = a_receiver_participant_id a \<and>
              toLowerCase (p_name g) = toLowerCase nm
           then [(p_name r, p_wishlist r)] else [])
           (tg_participants t)))
         (tg_participants t)))
       (tg_assignments t))"

text \<open>
  The effect of one statement other than begin, commit and rollback on the tables it
  sees. An insert that breaks a \<^verbatim>\<open>UNIQUE\<close> or \<^verbatim>\<open>REFERENCES\<close> constraint of the schema
  is an error and changes nothing. The order of the rows of a selection is the order
  of the table; the collation of \<^verbatim>\<open>ORDER BY name\<close> is not modelled.
\<close>

fun execute :: "statement \<Rightarrow> tables \<Rightarrow> result \<times> tables" where
  "execute TruncateGroupData t =
     (Done, t\<lparr>tg_groups := [], tg_group_members := [], tg_assignments := [],
             groups_seq := 0, members_seq := 0, assignments_seq := 0\<rparr>)"
| "execute TruncateAll t =
     (Done, t\<lparr>tg_participants := [], tg_groups := [], tg_group_members := [], tg_assignments := [],
             participants_seq := 0, groups_seq := 0, members_seq := 0, assignments_seq := 0\<rparr>)"
| "execute (InsertGroup gname) t =
     (let key = Suc (groups_seq t)
      in (GroupId key,
          t\<lparr>tg_groups := tg_groups t @ [\<lparr>g_group_id = key, g_group_name = gname\<rparr>],
            groups_seq := key\<rparr>))"
| "execute (InsertMember gid pid) t =
     (let key = Suc (members_seq t)
      in if gid \<in> set (map g_group_id (tg_groups t)) \<and> pid \<in> set (map p_id (tg_participants t)) \<and>
            (gid, pid) \<notin> set (map (\<lambda>m. (m_group_id m, m_participant_id m)) (tg_group_members t))
         then (Done,
               t\<lparr>tg_group_members := tg_group_members t @
                    [\<lparr>m_membership_id = key, m_group_id = gid, m_participant_id = pid\<rparr>],
                 members_seq := key\<rparr>)
         else (QueryError, t))"
| "execute (InsertAssignment gid giverId receiverId) t =
     (let key = Suc (assignments_seq t)
      in if gid \<in> set (map g_group_id (tg_groups t)) \<and>
            giverId \<in> set (map p_id (tg_participants t)) \<and>
            receiverId \<in> set (map p_id (tg_participants t)) \<and>
            (gid, giverId) \<notin> set (map (\<lambda>a. (a_group_id a, a_giver_participant_id a)) (tg_assignments t))
         then (Done,
               t\<lparr>tg_assignments := tg_assignments t @
                    [\<lparr>a_assignment_id = key, a_group_id = gid, a_giver_participant_id = giverId,
                      a_receiver_participant_id = receiverId\<rparr>],
                 assignments_seq := key\<rparr>)
         else (QueryError, t))"
| "execute (UpsertParticipant nm wl) t = (Done, upsertParticipant nm wl t)"
| "execute SelectParticipants t = (ParticipantRefs (map (\<lambda>p. (p_id p, p_name p)) (tg_participants t)), t)"
| "execute SelectParticipantsById t = (ParticipantRefs (map (\<lambda>p. (p_id p, p_name p)) (tg_participants t)), t)"
| "execute SelectParticipantsByName t = (ParticipantRows (tg_participants t), t)"
| "execute (SelectAssignment nm) t = (ReceiverRows (selectAssignment nm t), t)"
| "execute (SelectParticipantExists nm) t =
     (ExistsRows (length (filter (\<lambda>p. toLowerCase (p_name p) = toLowerCase nm) (tg_participants t))), t)"
| "execute Begin t = (Done, t)"
| "execute Commit t = (Done, t)"
| "execute Rollback t = (Done, t)"

section \<open>Conversation state, rate limiting and the process state\<close>

text \<open>
  An entry of \<^verbatim>\<open>userState\<close>. The source's objects carry only the fields set so far;
  the model gives the others a default, and every handler reads a field only in a
  state that is entered after the field was set.
\<close>

record stateData =
  state :: string
  name :: string
  participantCount :: nat
  participants :: "(nat \<times> string) list"
  numGroups :: int

definition newState :: "string \<Rightarrow> stateData" where
  "newState tag = \<lparr>state = tag, name = [], participantCount = 0, participants = [], numGroups = 0\<rparr>"

record rateData =
  rl_count :: nat
  rl_resetTime :: int

definition RATE_LIMIT_WINDOW :: int where
  "RATE_LIMIT_WINDOW = 60 * 1000"

definition RATE_LIMIT_MAX_REQUESTS :: nat where
  "RATE_LIMIT_MAX_REQUESTS = 10"

datatype summary_line =
    SkippedLine nat nat
  | HeaderLine nat nat
  | MatchLine string string

text \<open>The messages the bot sends, by kind, with the values their texts are built from.\<close>

datatype reply =
    RateLimitedNotice
  | WelcomeNotice
  | AskNameNotice
  | AskAssignmentNameNotice
  | AdminOnlyNotice
  | NoParticipantsNotice
  | ParticipantListNotice "participant_row list"
  | ListFailedNotice
  | ConfirmClearNotice
  | NeedTwoParticipantsNotice
  | AskNumGroupsNotice nat
  | CreateGroupsFailedNotice
  | InvalidNameNotice
  | AskWishlistNotice string
  | RegistrationFailedNotice
  | RegisteredNotice string bool
  | AssignmentNotice string string string
  | NoAssignmentYetNotice string
  | NotRegisteredNotice string
  | LookupFailedNotice
  | ConfirmationNotAdminNotice
  | DataClearedNotice
  | ClearFailedNotice
  | ClearCancelledNotice
  | NumGroupsNotAdminNotice
  | InvalidNumGroupsNotice nat
  | AskRestrictionsNotice int
  | RestrictionsNotAdminNotice
  | InvalidRestrictionsNotice
  | ProcessingNotice int nat
  | MatchingFailedNotice nat "string list" error
  | MatchingEmptyNotice nat
  | MemberIdMissingNotice string
  | AssignmentIdMissingNotice
  | SuccessNotice nat nat "summary_line list"
  | UnexpectedErrorNotice
  | PositiveNumberNotice
  | TooManyGroupsNotice int nat
  | CreatingGroupsNotice int
  | GroupingNotImplementedNotice
  | GroupCreationFailedNotice

text \<open>
  The state of the process and of its collaborators: the two in-memory maps, the store,
  the messages sent so far, and how many queries and random draws have been made.
\<close>

record world =
  userState :: "int \<Rightarrow> stateData option"
  rateLimitStore :: "int \<Rightarrow> rateData option"
  db :: database
  outbox :: "(int \<times> reply) list"
  queryCount :: nat
  drawCount :: nat

text \<open>
  What the process cannot control: the configured administrator (\<open>None\<close> when
  \<^verbatim>\<open>parseInt\<close> of the setting is NaN), the random source, and which queries fail for
  reasons outside the statement (\<open>env_faults e k\<close>: the \<open>k\<close>-th query of the process
  errors).
\<close>

record env =
  env_admin :: "int option"
  env_rng :: "nat \<Rightarrow> nat"
  env_faults :: "nat \<Rightarrow> bool"

record message =
  msg_chat :: int
  msg_from :: int
  msg_text :: "string option"

text \<open>
  Modelled from the spec: one call of \<^verbatim>\<open>client.query\<close>. A query that errors leaves the
  tables as they are. Begin opens the working copy; commit publishes it; rollback
  discards it. A transaction is all-or-nothing: when commit or rollback itself errors,
  the store still ends the transaction without publishing anything.
\<close>

definition query :: "env \<Rightarrow> statement \<Rightarrow> world \<Rightarrow> result \<times> world" where
  "query e stmt w =
     (let failing = env_faults e (queryCount w);
          w1 = w\<lparr>queryCount := Suc (queryCount w)\<rparr>;
          dbs = db w1
      in case stmt of
           Begin \<Rightarrow>
             if failing then (QueryError, w1)
             else (Done, w1\<lparr>db := dbs\<lparr>txn := Some (visible dbs)\<rparr>\<rparr>)
         | Commit \<Rightarrow>
             if failing then (QueryError, w1\<lparr>db := dbs\<lparr>txn := None\<rparr>\<rparr>)
             else (Done, w1\<lparr>db := \<lparr>committed = visible dbs, txn = None\<rparr>\<rparr>)
         | Rollback \<Rightarrow>
             (if failing then QueryError else Done, w1\<lparr>db := dbs\<lparr>txn := None\<rparr>\<rparr>)
         | _ \<Rightarrow>
             if failing then (QueryError, w1)
             else (case execute stmt (visible dbs) of
                     (QueryError, t) \<Rightarrow> (QueryError, w1)
                   | (r, t) \<Rightarrow> (r, w1\<lparr>db := store t dbs\<rparr>)))"

definition sendMessage :: "int \<Rightarrow> reply \<Rightarrow> world \<Rightarrow> world" where
  "sendMessage chatId r w = w\<lparr>outbox := outbox w @ [(chatId, r)]\<rparr>"

definition deleteState :: "int \<Rightarrow> world \<Rightarrow> world" where
  "deleteState chatId w = w\<lparr>userState := (userState w)(chatId := None)\<rparr>"

definition setState :: "int \<Rightarrow> stateData \<Rightarrow> world \<Rightarrow> world" where
  "setState chatId sd w = w\<lparr>userState := (userState w)(chatId \<mapsto> sd)\<rparr>"

text \<open>src/bot.js, isAdmin.\<close>

definition isAdmin :: "env \<Rightarrow> int \<Rightarrow> bool" where
  "isAdmin e userId =
     (case env_admin e of
        None \<Rightarrow> False
      | Some adminId \<Rightarrow> if adminId = 0 then False else userId = adminId)"

text \<open>src/rateLimit.js, isRateLimited; \<open>now\<close> is the value of \<^verbatim>\<open>Date.now()\<close>.\<close>

definition isRateLimited :: "int \<Rightarrow> int \<Rightarrow> world \<Rightarrow> bool \<times> world" where
  "isRateLimited userId now w =
     (case rateLimitStore w userId of
        None \<Rightarrow>
          (False, w\<lparr>rateLimitStore := (rateLimitStore w)
                      (userId \<mapsto> \<lparr>rl_count = 1, rl_resetTime = now + RATE_LIMIT_WINDOW\<rparr>)\<rparr>)
      | Some userData \<Rightarrow>
          if rl_resetTime userData \<le> now
          then (False, w\<lparr>rateLimitStore := (rateLimitStore w)
                      (userId \<mapsto> \<lparr>rl_count = 1, rl_resetTime = now + RATE_LIMIT_WINDOW\<rparr>)\<rparr>)
          else (rl_count userData + 1 > RATE_LIMIT_MAX_REQUESTS,
                w\<lparr>rateLimitStore := (rateLimitStore w)
                      (userId \<mapsto> userData\<lparr>rl_count := rl_count userData + 1\<rparr>)\<rparr>))"

section \<open>The orchestration of a run (src/bot.js, awaiting_restrictions handler)\<close>

text \<open>The decimal digits of a number, as template literals print it.\<close>

function decimal :: "nat \<Rightarrow> string" where
  "decimal k = (if k < 10 then [char_of (48 + k)] else decimal (k div 10) @ [char_of (48 + k mod 10)])"
  by pat_completeness auto
termination
  by (relation "measure (\<lambda>k. k)") auto

declare decimal.simps [simp del]

definition groupLabel :: "nat \<Rightarrow> string" where
  "groupLabel k = ''Secret Angel Group '' @ decimal k"

text \<open>
  \<^verbatim>\<open>new Map(participants.map(p => [p.name, p.id]))\<close>: of two rows with one name the
  later one wins.
\<close>

definition participantMapOf :: "(nat \<times> string) list \<Rightarrow> string \<Rightarrow> nat option" where
  "participantMapOf ps = map_of (rev (map (\<lambda>p. (snd p, fst p)) ps))"

text \<open>
  How a piece of the \<^verbatim>\<open>try\<close> block ends: it runs on; it has rolled back, reported,
  cleared \<^verbatim>\<open>allGroupsProcessedSuccessfully\<close> and left the loops; or a query has thrown
  and control is on its way to the \<^verbatim>\<open>catch\<close> block.
\<close>

datatype flow = Proceed | Broke | Thrown

text \<open>The loop \<^verbatim>\<open>for (const name of groupNames)\<close> that inserts the memberships.\<close>

fun insertMembers ::
  "env \<Rightarrow> int \<Rightarrow> (string \<Rightarrow> nat option) \<Rightarrow> nat \<Rightarrow> string list \<Rightarrow> world \<Rightarrow> flow \<times> world"
where
  "insertMembers e chatId participantMap groupId [] w = (Proceed, w)"
| "insertMembers e chatId participantMap groupId (nm # rest) w =
     (case participantMap nm of
        None \<Rightarrow>
          (case query e Rollback w of
             (QueryError, w1) \<Rightarrow> (Thrown, w1)
           | (r, w1) \<Rightarrow> (Broke, sendMessage chatId (MemberIdMissingNotice nm) w1))
      | Some participantId \<Rightarrow>
          (case query e (InsertMember groupId participantId) w of
             (QueryError, w1) \<Rightarrow> (Thrown, w1)
           | (r, w1) \<Rightarrow> insertMembers e chatId participantMap groupId rest w1))"

text \<open>
  The loop \<^verbatim>\<open>for (const match of matches)\<close> that inserts the assignments and extends
  the summary and the count.
\<close>

fun insertAssignments ::
  "env \<Rightarrow> int \<Rightarrow> (string \<Rightarrow> nat option) \<Rightarrow> nat \<Rightarrow> match list \<Rightarrow> summary_line list \<Rightarrow> nat \<Rightarrow> world
     \<Rightarrow> flow \<times> summary_line list \<times> nat \<times> world"
where
  "insertAssignments e chatId participantMap groupId [] summary assigned w = (Proceed, summary, assigned, w)"
| "insertAssignments e chatId participantMap groupId (m # rest) summary assigned w =
     (case (participantMap (giver m), participantMap (receiver m)) of
        (Some giverId, Some receiverId) \<Rightarrow>
          (case query e (InsertAssignment groupId giverId receiverId) w of
             (QueryError, w1) \<Rightarrow> (Thrown, summary, assigned, w1)
           | (r, w1) \<Rightarrow>
               insertAssignments e chatId participantMap groupId rest
                 (summary @ [MatchLine (giver m) (receiver m)]) (assigned + 1) w1)
      | other \<Rightarrow>
          (case query e Rollback w of
             (QueryError, w1) \<Rightarrow> (Thrown, summary, assigned, w1)
           | (r, w1) \<Rightarrow> (Broke, summary, assigned, sendMessage chatId AssignmentIdMissingNotice w1)))"

text \<open>
  The loop over the created groups; \<open>i\<close> is the loop index. A group of fewer than two
  names is reported as skipped and touches neither the random source nor the store.
\<close>

fun groupsLoop ::
  "env \<Rightarrow> int \<Rightarrow> (string \<Rightarrow> nat option) \<Rightarrow> string list list \<Rightarrow> string list list \<Rightarrow> nat
     \<Rightarrow> summary_line list \<Rightarrow> nat \<Rightarrow> world \<Rightarrow> flow \<times> summary_line list \<times> nat \<times> world"
where
  "groupsLoop e chatId participantMap restrictions [] i summary assigned w = (Proceed, summary, assigned, w)"
| "groupsLoop e chatId participantMap restrictions (groupNames # rest) i summary assigned w =
     (if length groupNames < 2 then
        groupsLoop e chatId participantMap restrictions rest (i + 1)
          (summary @ [SkippedLine (i + 1) (length groupNames)]) assigned w
      else
        let summary1 = summary @ [HeaderLine (i + 1) (length groupNames)];
            matched = assignSecretAngels groupNames restrictions (env_rng e) (drawCount w);
            w1 = w\<lparr>drawCount := snd matched\<rparr>
        in case fst matched of
             Inl matchError \<Rightarrow>
               (case query e Rollback w1 of
                  (QueryError, w2) \<Rightarrow> (Thrown, summary1, assigned, w2)
                | (r, w2) \<Rightarrow>
                    (Broke, summary1, assigned,
                     sendMessage chatId (MatchingFailedNotice (i + 1) groupNames matchError) w2))
           | Inr matches \<Rightarrow>
               if length matches = 0 \<and> length groupNames \<ge> 2 then
                 (case query e Rollback w1 of
                    (QueryError, w2) \<Rightarrow> (Thrown, summary1, assigned, w2)
                  | (r, w2) \<Rightarrow>
                      (Broke, summary1, assigned, sendMessage chatId (MatchingEmptyNotice (i + 1)) w2))
               else
                 (case query e (InsertGroup (groupLabel (i + 1))) w1 of
                    (GroupId groupId, w2) \<Rightarrow>
                      (case insertMembers e chatId participantMap groupId groupNames w2 of
                         (Proceed, w3) \<Rightarrow>
                           (case insertAssignments e chatId participantMap groupId matches summary1 assigned w3 of
                              (Proceed, summary2, count2, w4) \<Rightarrow>
                                groupsLoop e chatId participantMap restrictions rest (i + 1) summary2 count2 w4
                            | (stopped, summary2, count2, w4) \<Rightarrow> (stopped, summary2, count2, w4))
                       | (stopped, w3) \<Rightarrow> (stopped, summary1, assigned, w3))
                  | (r, w2) \<Rightarrow> (Thrown, summary1, assigned, w2)))"

text \<open>
  The \<^verbatim>\<open>try\<close> block: begin, truncate the three tables of the previous run, group,
  process every group, and commit only when \<^verbatim>\<open>allGroupsProcessedSuccessfully\<close> is
  still true. An error thrown by \<^verbatim>\<open>assignParticipantsToGroups\<close> goes to the
  \<^verbatim>\<open>catch\<close> block like a failed query.
\<close>

definition tryCreateGroups ::
  "env \<Rightarrow> int \<Rightarrow> string list \<Rightarrow> (string \<Rightarrow> nat option) \<Rightarrow> int \<Rightarrow> string list list \<Rightarrow> world \<Rightarrow> flow \<times> world"
where
  "tryCreateGroups e chatId participantNames participantMap groupCount restrictions w =
     (case query e Begin w of
        (QueryError, w1) \<Rightarrow> (Thrown, w1)
      | (r1, w1) \<Rightarrow>
     (case query e TruncateGroupData w1 of
        (QueryError, w2) \<Rightarrow> (Thrown, w2)
      | (r2, w2) \<Rightarrow>
     (let grouped = assignParticipantsToGroups participantNames groupCount (env_rng e) (drawCount w2);
          w3 = w2\<lparr>drawCount := snd grouped\<rparr>
      in case fst grouped of
           Inl groupingError \<Rightarrow> (Thrown, w3)
         | Inr createdGroupsByName \<Rightarrow>
             (case groupsLoop e chatId participantMap restrictions createdGroupsByName 0 [] 0 w3 of
                (Proceed, summary, assigned, w4) \<Rightarrow>
                  (case query e Commit w4 of
                     (QueryError, w5) \<Rightarrow> (Thrown, w5)
                   | (r5, w5) \<Rightarrow>
                       (Proceed,
                        sendMessage chatId (SuccessNotice (length createdGroupsByName) assigned summary) w5))
              | (stopped, summary, assigned, w4) \<Rightarrow> (stopped, w4)))))"

text \<open>
  The \<^verbatim>\<open>try\<close> block with its \<^verbatim>\<open>catch\<close>: a rollback whose own failure is only logged,
  then the notice that no changes were saved.
\<close>

definition createGroupsAndAssign ::
  "env \<Rightarrow> int \<Rightarrow> string list \<Rightarrow> (string \<Rightarrow> nat option) \<Rightarrow> int \<Rightarrow> string list list \<Rightarrow> world \<Rightarrow> world"
where
  "createGroupsAndAssign e chatId participantNames participantMap groupCount restrictions w =
     (case tryCreateGroups e chatId participantNames participantMap groupCount restrictions w of
        (Thrown, w1) \<Rightarrow> sendMessage chatId UnexpectedErrorNotice (snd (query e Rollback w1))
      | (finished, w1) \<Rightarrow> w1)"

section \<open>The message listener (src/bot.js, bot.on('message'))\<close>

text \<open>
  The chain \<^verbatim>\<open>if (state === ...) else if (state === ...)\<close> of the listener, as the
  branch that the comparisons, taken in the order of the source, select. The seventh
  comparison repeats the fifth.
\<close>

datatype branch =
    NameBranch
  | WishlistBranch
  | NameForAssignmentBranch
  | ClearConfirmationBranch
  | NumGroupsBranch
  | RestrictionsBranch
  | SecondNumGroupsBranch
  | NoBranch

definition selectBranch :: "string \<Rightarrow> branch" where
  "selectBranch st =
     (if st = ''awaiting_name'' then NameBranch
      else if st = ''awaiting_wishlist'' then WishlistBranch
      else if st = ''awaiting_name_for_assignment'' then NameForAssignmentBranch
      else if st = ''awaiting_clear_confirmation'' then ClearConfirmationBranch
      else if st = ''awaiting_num_groups'' then NumGroupsBranch
      else if st = ''awaiting_restrictions'' then RestrictionsBranch
      else if st = ''awaiting_num_groups'' then SecondNumGroupsBranch
      else NoBranch)"

text \<open>
  The branches. \<open>txt\<close> is \<^verbatim>\<open>msg.text\<close>, absent for a message that carries no text.
  Where the source calls a method of the absent text, the handler throws and the rest
  of it does not run.
\<close>

definition awaitingName :: "int \<Rightarrow> string option \<Rightarrow> stateData \<Rightarrow> world \<Rightarrow> world" where
  "awaitingName chatId txt sd w =
     (case (case txt of None \<Rightarrow> None | Some t \<Rightarrow> validateName t) of
        None \<Rightarrow> sendMessage chatId InvalidNameNotice w
      | Some sanitizedName \<Rightarrow>
          sendMessage chatId (AskWishlistNotice sanitizedName)
            (setState chatId (sd\<lparr>name := sanitizedName, state := ''awaiting_wishlist''\<rparr>) w))"

definition awaitingWishlist :: "env \<Rightarrow> int \<Rightarrow> string option \<Rightarrow> stateData \<Rightarrow> world \<Rightarrow> world" where
  "awaitingWishlist e chatId txt sd w =
     (case txt of
        None \<Rightarrow> w
      | Some t \<Rightarrow>
          let sanitizedWishlist = (if toLowerCase t \<noteq> ''skip'' then validateWishlist t else []);
              answered = query e (UpsertParticipant (name sd) sanitizedWishlist) w
          in deleteState chatId
               (case fst answered of
                  QueryError \<Rightarrow> sendMessage chatId RegistrationFailedNotice (snd answered)
                | r \<Rightarrow> sendMessage chatId (RegisteredNotice (name sd) (sanitizedWishlist \<noteq> []))
                         (snd answered)))"

definition awaitingNameForAssignment :: "env \<Rightarrow> int \<Rightarrow> string option \<Rightarrow> world \<Rightarrow> world" where
  "awaitingNameForAssignment e chatId txt w =
     (case (case txt of None \<Rightarrow> None | Some t \<Rightarrow> validateName t) of
        None \<Rightarrow> sendMessage chatId InvalidNameNotice w
      | Some sanitizedName \<Rightarrow>
          deleteState chatId
            (case query e (SelectAssignment sanitizedName) w of
               (ReceiverRows (row # others), w1) \<Rightarrow>
                 sendMessage chatId
                   (AssignmentNotice sanitizedName (fst row)
                      (if snd row = [] then ''No wishlist provided.'' else snd row)) w1
             | (ReceiverRows [], w1) \<Rightarrow>
                 (case query e (SelectParticipantExists sanitizedName) w1 of
                    (ExistsRows k, w2) \<Rightarrow>
                      if k > 0 then sendMessage chatId (NoAssignmentYetNotice sanitizedName) w2
                      else sendMessage chatId (NotRegisteredNotice sanitizedName) w2
                  | (r, w2) \<Rightarrow> sendMessage chatId LookupFailedNotice w2)
             | (r, w1) \<Rightarrow> sendMessage chatId LookupFailedNotice w1))"

definition awaitingClearConfirmation :: "env \<Rightarrow> int \<Rightarrow> int \<Rightarrow> string option \<Rightarrow> world \<Rightarrow> world" where
  "awaitingClearConfirmation e chatId userId txt w =
     (if \<not> isAdmin e userId then deleteState chatId (sendMessage chatId ConfirmationNotAdminNotice w)
      else if (case txt of None \<Rightarrow> False | Some t \<Rightarrow> t \<noteq> [] \<and> toLowerCase t = ''yes'') then
        deleteState chatId
          (case query e TruncateAll w of
             (QueryError, w1) \<Rightarrow> sendMessage chatId ClearFailedNotice w1
           | (r, w1) \<Rightarrow> sendMessage chatId DataClearedNotice w1)
      else deleteState chatId (sendMessage chatId ClearCancelledNotice w))"

definition awaitingNumGroups :: "env \<Rightarrow> int \<Rightarrow> int \<Rightarrow> string option \<Rightarrow> stateData \<Rightarrow> world \<Rightarrow> world" where
  "awaitingNumGroups e chatId userId txt sd w =
     (if \<not> isAdmin e userId then deleteState chatId (sendMessage chatId NumGroupsNotAdminNotice w)
      else
        case (case txt of None \<Rightarrow> None
              | Some t \<Rightarrow> validateNumber t 1 (int (participantCount sd))) of
          None \<Rightarrow> sendMessage chatId (InvalidNumGroupsNotice (participantCount sd)) w
        | Some groupCount \<Rightarrow>
            sendMessage chatId (AskRestrictionsNotice groupCount)
              (setState chatId (sd\<lparr>numGroups := groupCount, state := ''awaiting_restrictions''\<rparr>) w))"

definition awaitingRestrictions :: "env \<Rightarrow> int \<Rightarrow> int \<Rightarrow> string option \<Rightarrow> stateData \<Rightarrow> world \<Rightarrow> world" where
  "awaitingRestrictions e chatId userId txt sd w =
     (if \<not> isAdmin e userId then deleteState chatId (sendMessage chatId RestrictionsNotAdminNotice w)
      else
        let participantNames = map snd (participants sd);
            participantMap = participantMapOf (participants sd)
        in case (case txt of None \<Rightarrow> Some []
                 | Some t \<Rightarrow> validateRestrictionsInput t participantNames) of
             None \<Rightarrow> sendMessage chatId InvalidRestrictionsNotice w
           | Some restrictions \<Rightarrow>
               deleteState chatId
                 (createGroupsAndAssign e chatId participantNames participantMap (numGroups sd) restrictions
                    (deleteState chatId
                       (sendMessage chatId (ProcessingNotice (numGroups sd) (length restrictions)) w))))"

text \<open>
  The second, unfinished \<^verbatim>\<open>awaiting_num_groups\<close> branch: it reads the participants,
  reports that grouping is not implemented, rolls back and returns.
\<close>

definition awaitingNumGroupsUnfinished ::
  "env \<Rightarrow> int \<Rightarrow> int \<Rightarrow> string option \<Rightarrow> stateData \<Rightarrow> world \<Rightarrow> world"
where
  "awaitingNumGroupsUnfinished e chatId userId txt sd w =
     (if \<not> isAdmin e userId then deleteState chatId (sendMessage chatId NumGroupsNotAdminNotice w)
      else
        case txt of
          None \<Rightarrow> w
        | Some t \<Rightarrow>
            (case parseInt (trim t) of
               None \<Rightarrow> sendMessage chatId PositiveNumberNotice w
             | Some groupCount \<Rightarrow>
                 if groupCount \<le> 0 then sendMessage chatId PositiveNumberNotice w
                 else if groupCount > int (participantCount sd)
                 then sendMessage chatId (TooManyGroupsNotice groupCount (participantCount sd)) w
                 else
                   let w1 = deleteState chatId (sendMessage chatId (CreatingGroupsNotice groupCount) w)
                   in case query e SelectParticipantsById w1 of
                        (QueryError, w2) \<Rightarrow>
                          (case query e Rollback w2 of
                             (QueryError, w3) \<Rightarrow> w3
                           | (r, w3) \<Rightarrow> sendMessage chatId GroupCreationFailedNotice w3)
                      | (rows, w2) \<Rightarrow>
                          (case query e Rollback (sendMessage chatId GroupingNotImplementedNotice w2) of
                             (QueryError, w3) \<Rightarrow>
                               (case query e Rollback w3 of
                                  (QueryError, w4) \<Rightarrow> w4
                                | (r, w4) \<Rightarrow> sendMessage chatId GroupCreationFailedNotice w4)
                           | (r, w3) \<Rightarrow> w3)))"

text \<open>
  The listener: the rate limit first, then the test for a command, then the branch of
  the conversation's state. \<^verbatim>\<open>text && text.startsWith('/')\<close> is false for an absent or
  empty text.
\<close>

definition isCommand :: "string option \<Rightarrow> bool" where
  "isCommand txt = (case txt of None \<Rightarrow> False | Some t \<Rightarrow> t \<noteq> [] \<and> startsWith t ''/'')"

definition onMessage :: "env \<Rightarrow> int \<Rightarrow> message \<Rightarrow> world \<Rightarrow> world" where
  "onMessage e now msg w0 =
     (let chatId = msg_chat msg;
          txt = msg_text msg;
          userId = msg_from msg;
          admitted = isRateLimited userId now w0;
          w = snd admitted
      in if fst admitted then sendMessage chatId RateLimitedNotice w
         else if isCommand txt then
           (if userState w chatId \<noteq> None then deleteState chatId w else w)
         else
           case userState w chatId of
             None \<Rightarrow> w
           | Some sd \<Rightarrow>
               (case selectBranch (state sd) of
                  NameBranch \<Rightarrow> awaitingName chatId txt sd w
                | WishlistBranch \<Rightarrow> awaitingWishlist e chatId txt sd w
                | NameForAssignmentBranch \<Rightarrow> awaitingNameForAssignment e chatId txt w
                | ClearConfirmationBranch \<Rightarrow> awaitingClearConfirmation e chatId userId txt w
                | NumGroupsBranch \<Rightarrow> awaitingNumGroups e chatId userId txt sd w
                | RestrictionsBranch \<Rightarrow> awaitingRestrictions e chatId userId txt sd w
                | SecondNumGroupsBranch \<Rightarrow> awaitingNumGroupsUnfinished e chatId userId txt sd w
                | NoBranch \<Rightarrow> w))"

section \<open>The command handlers (src/bot.js, bot.onText)\<close>

definition onStart :: "message \<Rightarrow> world \<Rightarrow> world" where
  "onStart msg w = deleteState (msg_chat msg) (sendMessage (msg_chat msg) WelcomeNotice w)"

definition onRegister :: "int \<Rightarrow> message \<Rightarrow> world \<Rightarrow> world" where
  "onRegister now msg w0 =
     (let admitted = isRateLimited (msg_from msg) now w0; w = snd admitted
      in if fst admitted then sendMessage (msg_chat msg) RateLimitedNotice w
         else setState (msg_chat msg) (newState ''awaiting_name'')
                (sendMessage (msg_chat msg) AskNameNotice w))"

definition onMyAssignment :: "int \<Rightarrow> message \<Rightarrow> world \<Rightarrow> world" where
  "onMyAssignment now msg w0 =
     (let admitted = isRateLimited (msg_from msg) now w0; w = snd admitted
      in if fst admitted then sendMessage (msg_chat msg) RateLimitedNotice w
         else setState (msg_chat msg) (newState ''awaiting_name_for_assignment'')
                (sendMessage (msg_chat msg) AskAssignmentNameNotice w))"

definition onParticipants :: "env \<Rightarrow> int \<Rightarrow> message \<Rightarrow> world \<Rightarrow> world" where
  "onParticipants e now msg w0 =
     (let admitted = isRateLimited (msg_from msg) now w0; w = snd admitted
      in if fst admitted then sendMessage (msg_chat msg) RateLimitedNotice w
         else if \<not> isAdmin e (msg_from msg) then sendMessage (msg_chat msg) AdminOnlyNotice w
         else case query e SelectParticipantsByName w of
                (ParticipantRows [], w1) \<Rightarrow> sendMessage (msg_chat msg) NoParticipantsNotice w1
              | (ParticipantRows rows, w1) \<Rightarrow> sendMessage (msg_chat msg) (ParticipantListNotice rows) w1
              | (r, w1) \<Rightarrow> sendMessage (msg_chat msg) ListFailedNotice w1)"

definition onClearData :: "env \<Rightarrow> int \<Rightarrow> message \<Rightarrow> world \<Rightarrow> world" where
  "onClearData e now msg w0 =
     (let admitted = isRateLimited (msg_from msg) now w0; w = snd admitted
      in if fst admitted then sendMessage (msg_chat msg) RateLimitedNotice w
         else if \<not> isAdmin e (msg_from msg) then sendMessage (msg_chat msg) AdminOnlyNotice w
         else setState (msg_chat msg) (newState ''awaiting_clear_confirmation'')
                (sendMessage (msg_chat msg) ConfirmClearNotice w))"

definition onCreateGroups :: "env \<Rightarrow> int \<Rightarrow> message \<Rightarrow> world \<Rightarrow> world" where
  "onCreateGroups e now msg w0 =
     (let admitted = isRateLimited (msg_from msg) now w0; w = snd admitted
      in if fst admitted then sendMessage (msg_chat msg) RateLimitedNotice w
         else if \<not> isAdmin e (msg_from msg) then sendMessage (msg_chat msg) AdminOnlyNotice w
         else case query e SelectParticipants w of
                (ParticipantRefs rows, w1) \<Rightarrow>
                  if length rows < 2 then sendMessage (msg_chat msg) NeedTwoParticipantsNotice w1
                  else setState (msg_chat msg)
                         ((newState ''awaiting_num_groups'')
                            \<lparr>participantCount := length rows, participants := rows\<rparr>)
                         (sendMessage (msg_chat msg) (AskNumGroupsNotice (length rows)) w1)
              | (r, w1) \<Rightarrow> sendMessage (msg_chat msg) CreateGroupsFailedNotice w1)"

text \<open>\<^verbatim>\<open>regexp.exec(text)\<close> for the unanchored literal patterns of the command handlers.\<close>

fun containsText :: "string \<Rightarrow> string \<Rightarrow> bool" where
  "containsText [] pattern = (pattern = [])"
| "containsText (c # cs) pattern = (startsWith (c # cs) pattern \<or> containsText cs pattern)"


text \<open>The command handlers that a text reaches, in registration order.\<close>

definition commandHandlers :: "env \<Rightarrow> int \<Rightarrow> message \<Rightarrow> string \<Rightarrow> world \<Rightarrow> world" where
  "commandHandlers e now msg t w1 =
     (let w2 = (if containsText t ''/start'' then onStart msg w1 else w1);
          w3 = (if containsText t ''/register'' then onRegister now msg w2 else w2);
          w4 = (if containsText t ''/myassignment'' then onMyAssignment now msg w3 else w3);
          w5 = (if containsText t ''/participants'' then onParticipants e now msg w4 else w4);
          w6 = (if containsText t ''/cleardata'' then onClearData e now msg w5 else w5)
      in if containsText t ''/creategroups'' then onCreateGroups e now msg w6 else w6)"

text \<open>
  One incoming message. The transport first emits it to the listener and then, when it
  has a text, calls every command handler whose pattern occurs in the text. Each
  handler runs to its end before the next one starts.
\<close>

definition dispatch :: "env \<Rightarrow> int \<Rightarrow> message \<Rightarrow> world \<Rightarrow> world" where
  "dispatch e now msg w =
     (let w1 = onMessage e now msg w
      in case msg_text msg of
           None \<Rightarrow> w1
         | Some t \<Rightarrow> if t = [] then w1 else commandHandlers e now msg t w1)"

section \<open>Notions used to state the properties of a run\<close>

text \<open>None of the queries numbered from \<open>a\<close> up to, not including, \<open>b\<close> is made to fail.\<close>

definition faultFree :: "env \<Rightarrow> nat \<Rightarrow> nat \<Rightarrow> bool" where
  "faultFree e a b = list_all (\<lambda>k. \<not> env_faults e k) [a..<b]"

text \<open>
  What every piece of the \<^verbatim>\<open>try\<close> block guarantees while a transaction is open:
  the published tables stay as they are; a piece that runs on has kept the transaction
  open, sent nothing, met no failing query and left the participants alone; a piece
  that broke off has ended the transaction.
\<close>

definition txnProgress :: "env \<Rightarrow> world \<Rightarrow> flow \<Rightarrow> world \<Rightarrow> bool" where
  "txnProgress e w f w' =
     (committed (db w') = committed (db w) \<and> queryCount w \<le> queryCount w' \<and>
      (f = Proceed \<longrightarrow>
         txn (db w') \<noteq> None \<and> outbox w' = outbox w \<and>
         faultFree e (queryCount w) (queryCount w') \<and>
         tg_participants (visible (db w')) = tg_participants (visible (db w))) \<and>
      (f = Broke \<longrightarrow> txn (db w') = None))"

text \<open>
  The listener as it would read with the second \<^verbatim>\<open>awaiting_num_groups\<close> branch
  deleted from the chain.
\<close>

definition listenerWithoutDuplicate :: "env \<Rightarrow> int \<Rightarrow> message \<Rightarrow> world \<Rightarrow> world" where
  "listenerWithoutDuplicate e now msg w0 =
     (let chatId = msg_chat msg;
          txt = msg_text msg;
          userId = msg_from msg;
          admitted = isRateLimited userId now w0;
          w = snd admitted
      in if fst admitted then sendMessage chatId RateLimitedNotice w
         else if isCommand txt then
           (if userState w chatId \<noteq> None then deleteState chatId w else w)
         else
           case userState w chatId of
             None \<Rightarrow> w
           | Some sd \<Rightarrow>
               if state sd = ''awaiting_name'' then awaitingName chatId txt sd w
               else if state sd = ''awaiting_wishlist'' then awaitingWishlist e chatId txt sd w
               else if state sd = ''awaiting_name_for_assignment''
                    then awaitingNameForAssignment e chatId txt w
               else if state sd = ''awaiting_clear_confirmation''
                    then awaitingClearConfirmation e chatId userId txt w
               else if state sd = ''awaiting_num_groups'' then awaitingNumGroups e chatId userId txt sd w
               else if state sd = ''awaiting_restrictions''
                    then awaitingRestrictions e chatId userId txt sd w
               else w)"

section \<open>Concrete scenarios\<close>























chapter \<open>Verification\<close>

section \<open>Properties of the shuffle\<close>


lemma length_shuffle_loop [simp]: "length (fst (shuffle_loop rng m arr d)) = length arr"
  by (induction m arbitrary: arr d) (simp_all add: Let_def)

lemma mset_shuffle_loop: "m < length arr \<Longrightarrow> mset (fst (shuffle_loop rng m arr d)) = mset arr"
proof (induction m arbitrary: arr d)
  case 0
  then show ?case by simp
next
  case (Suc m)
  let ?j = "randomInt rng d 0 (Suc m + 1)"
  have j: "?j < length arr" using Suc.prems by (simp add: randomInt_def) (meson Suc_lessD less_trans_Suc mod_less_divisor not_less_eq zero_less_Suc less_le_trans)
  have "mset (arr[Suc m := arr ! ?j, ?j := arr ! Suc m]) = mset arr"
    using Suc.prems j by (simp add: mset_swap)
  moreover have "m < length (arr[Suc m := arr ! ?j, ?j := arr ! Suc m])" using Suc.prems by simp
  ultimately show ?case using Suc.IH[of "arr[Suc m := arr ! ?j, ?j := arr ! Suc m]" "Suc d"]
    by (simp add: Let_def)
qed

lemma snd_shuffle_loop [simp]: "snd (shuffle_loop rng m arr d) = d + m"
  by (induction m arbitrary: arr d) (simp_all add: Let_def)

lemma mset_shuffle [simp]: "mset (fst (shuffle arr rng d)) = mset arr"
proof (cases "arr = []")
  case True then show ?thesis by (simp add: shuffle_def)
next
  case False then show ?thesis by (simp add: shuffle_def mset_shuffle_loop)
qed

lemma length_shuffle [simp]: "length (fst (shuffle arr rng d)) = length arr"
  by (simp add: shuffle_def)

lemma snd_shuffle [simp]: "snd (shuffle arr rng d) = d + (length arr - 1)"
  by (simp add: shuffle_def)

section \<open>Properties of grouping\<close>

lemma groupLoop_slices:
  "0 < base \<Longrightarrow> i \<le> n \<Longrightarrow>
   startIndex + sum_list (map (\<lambda>k. base + (if k < remainder then 1 else 0)) [i..<n]) \<le> length shuffled \<Longrightarrow>
   groupLoop shuffled plen base remainder n i startIndex groups =
     groups @ slices shuffled startIndex (map (\<lambda>k. base + (if k < remainder then 1 else 0)) [i..<n])"
proof (induction shuffled plen base remainder n i startIndex groups rule: groupLoop.induct)
  case (1 shuffled plen base remainder n i startIndex groups)
  show ?case
  proof (cases "i < n")
    case False
    then show ?thesis using "1.prems" by (subst groupLoop.simps) simp
  next
    case True
    define s where "s = base + (if i < remainder then 1 else 0)"
    define g where "g = slice shuffled startIndex (startIndex + s)"
    have upt: "[i..<n] = i # [Suc i..<n]" using True by (simp add: upt_conv_Cons)
    have pos: "0 < s" using "1.prems"(1) by (simp add: s_def)
    have fit: "startIndex + s \<le> length shuffled" using "1.prems"(3) by (simp add: upt s_def)
    have ne: "length g > 0"
      using pos fit by (simp add: slice_def g_def)
    have step: "groupLoop shuffled plen base remainder n i startIndex groups =
        groupLoop shuffled plen base remainder n (i + 1) (startIndex + s) (groups @ [g])"
      using True "1.prems"(1) ne unfolding g_def s_def
      by (subst groupLoop.simps) (simp add: Let_def)
    have "groupLoop shuffled plen base remainder n (i + 1) (startIndex + s) (groups @ [g]) =
              (groups @ [g]) @
                slices shuffled (startIndex + s) (map (\<lambda>k. base + (if k < remainder then 1 else 0)) [i + 1..<n])"
    proof (rule "1.IH"[OF True, where xb = g, unfolded s_def[symmetric]])
      show "s = s" ..
    qed (use "1.prems" True pos ne in \<open>simp_all add: s_def g_def upt add.assoc\<close>)
    then show ?thesis
      unfolding step by (simp add: upt s_def g_def)
  qed
qed

lemma length_slices [simp]: "length (slices arr start ss) = length ss"
  by (induction ss arbitrary: start) simp_all

lemma concat_slices: "concat (slices arr start ss) = take (sum_list ss) (drop start arr)"
proof (induction ss arbitrary: start)
  case Nil then show ?case by simp
next
  case (Cons s ss)
  have "take s (drop start arr) @ take (sum_list ss) (drop (start + s) arr)
        = take (s + sum_list ss) (drop start arr)"
    by (simp add: take_add add.commute)
  then show ?case using Cons by (simp add: slice_def)
qed

lemma nth_slices:
  "k < length ss \<Longrightarrow> start + sum_list ss \<le> length arr \<Longrightarrow> length (slices arr start ss ! k) = ss ! k"
proof (induction ss arbitrary: start k)
  case Nil then show ?case by simp
next
  case (Cons s ss)
  show ?case
  proof (cases k)
    case 0 then show ?thesis using Cons.prems by (simp add: slice_def)
  next
    case (Suc k')
    then show ?thesis using Cons.prems Cons.IH[of k' "start + s"] by (simp add: add.assoc)
  qed
qed

lemma sum_sizeOf: "sum_list (map (\<lambda>k. base + (if k < remainder then 1 else 0)) [0..<n]) = n * base + min n remainder"
  by (induction n) auto

lemma sum_sizeOf_total:
  assumes "0 < n"
  shows "sum_list (map (\<lambda>k. p div n + (if k < p mod n then 1 else 0)) [0..<n]) = p"
proof -
  have "p mod n < n" using assms by simp
  then have "min n (p mod n) = p mod n" by simp
  then show ?thesis by (simp add: sum_sizeOf)
qed



lemma shuffle_split: "shuffle arr rng d = (fst (shuffle arr rng d), d + (length arr - 1))"
  by (metis prod.collapse snd_shuffle)

lemma grouping_result:
  assumes "ps \<noteq> []" "1 \<le> N" "N \<le> int (length ps)"
  shows "fst (assignParticipantsToGroups ps N rng d) =
         Inr (slices (fst (shuffle ps rng d)) 0
               (map (\<lambda>k. length ps div nat N + (if k < length ps mod nat N then 1 else 0)) [0..<nat N]))"
proof -
  let ?n = "nat N"
  let ?sz = "\<lambda>k. length ps div ?n + (if k < length ps mod ?n then 1 else (0::nat))"
  let ?sh = "fst (shuffle ps rng d)"
  have n: "0 < ?n" "?n \<le> length ps" using assms by auto
  have base: "0 < length ps div ?n" using n by (simp add: div_greater_zero_iff)
  have total: "sum_list (map ?sz [0..<?n]) = length ps" using n(1) by (rule sum_sizeOf_total)
  have loop: "groupLoop ?sh (length ps) (length ps div ?n) (length ps mod ?n) ?n 0 0 [] =
              [] @ slices ?sh 0 (map ?sz [0..<?n])"
    by (rule groupLoop_slices) (use base total in simp_all)
  have pos: "\<forall>g \<in> set (slices ?sh 0 (map ?sz [0..<?n])). length g > 0"
  proof
    fix g assume "g \<in> set (slices ?sh 0 (map ?sz [0..<?n]))"
    then obtain k where k: "k < ?n" "g = slices ?sh 0 (map ?sz [0..<?n]) ! k"
      by (auto simp: in_set_conv_nth)
    have "length g = map ?sz [0..<?n] ! k"
      unfolding k(2) by (rule nth_slices) (use k total in simp_all)
    then show "length g > 0" using k base by simp
  qed
  have filt: "filter (\<lambda>g. length g > 0) (slices ?sh 0 (map ?sz [0..<?n])) = slices ?sh 0 (map ?sz [0..<?n])"
    using pos by (simp add: filter_id_conv)
  show ?thesis
    using assms loop filt
    by (simp add: assignParticipantsToGroups_def Let_def case_prod_beta)
qed

text \<open>
  Claim C3. For a participant list of length \<open>P > 0\<close> and an integer \<open>N\<close> with
  \<open>1 \<le> N \<le> P\<close>, \<^verbatim>\<open>assignParticipantsToGroups\<close> returns, whatever the random draws,
  exactly \<open>N\<close> groups; their concatenation is a permutation of the input; every size is
  \<open>P div N\<close> or \<open>P div N + 1\<close>; the sizes sum to \<open>P\<close>; and exactly the first
  \<open>P mod N\<close> groups, in iteration order, have the larger size.
\<close>

theorem grouping_partition:
  assumes "0 < length ps" "1 \<le> N" "N \<le> int (length ps)"
  shows "\<exists>groups. fst (assignParticipantsToGroups ps N rng d) = Inr groups
     \<and> int (length groups) = N
     \<and> mset (concat groups) = mset ps
     \<and> (\<forall>g \<in> set groups. length g = length ps div nat N \<or> length g = length ps div nat N + 1)
     \<and> sum_list (map length groups) = length ps
     \<and> (\<forall>i < length groups. length (groups ! i) =
            (if i < length ps mod nat N then length ps div nat N + 1 else length ps div nat N))"
proof -
  let ?n = "nat N"
  let ?sz = "\<lambda>k. length ps div ?n + (if k < length ps mod ?n then 1 else (0::nat))"
  let ?sh = "fst (shuffle ps rng d)"
  let ?gs = "slices ?sh 0 (map ?sz [0..<?n])"
  have n: "0 < ?n" using assms by auto
  have total: "sum_list (map ?sz [0..<?n]) = length ps" using n by (rule sum_sizeOf_total)
  have res: "fst (assignParticipantsToGroups ps N rng d) = Inr ?gs"
    using assms by (intro grouping_result) auto
  have len: "int (length ?gs) = N" using assms by simp
  have "concat ?gs = take (length ps) (drop 0 ?sh)"
    using concat_slices[of ?sh 0 "map ?sz [0..<?n]"] total by simp
  then have cc: "concat ?gs = ?sh" by simp
  have perm: "mset (concat ?gs) = mset ps" unfolding cc by simp
  have nth: "length (?gs ! i) = ?sz i" if "i < ?n" for i
  proof -
    have "length (?gs ! i) = map ?sz [0..<?n] ! i"
      by (rule nth_slices) (use that total in simp_all)
    then show ?thesis using that by simp
  qed
  have sizes: "\<forall>i < length ?gs. length (?gs ! i) =
            (if i < length ps mod ?n then length ps div ?n + 1 else length ps div ?n)"
    using nth by simp
  have two: "\<forall>g \<in> set ?gs. length g = length ps div ?n \<or> length g = length ps div ?n + 1"
  proof
    fix g assume "g \<in> set ?gs"
    then obtain k where "k < length ?gs" "g = ?gs ! k" by (auto simp: in_set_conv_nth)
    then show "length g = length ps div ?n \<or> length g = length ps div ?n + 1"
      using sizes by auto
  qed
  have "sum_list (map length ?gs) = length (concat ?gs)" by (simp add: length_concat)
  then have sum: "sum_list (map length ?gs) = length ps" unfolding cc by simp
  show ?thesis using res len perm two sum sizes by blast
qed

theorem grouping_partition_witness:
  "0 < length [''a'', ''b'', ''c'', ''d'', ''e''] \<and> (1::int) \<le> 2 \<and>
   (2::int) \<le> int (length [''a'', ''b'', ''c'', ''d'', ''e'']) \<and>
   fst (assignParticipantsToGroups [''a'', ''b'', ''c'', ''d'', ''e''] 2 lowestIndexDraws 0) =
     Inr [[''b'', ''c'', ''d''], [''e'', ''a'']] \<and>
   mset (concat [[''b'', ''c'', ''d''], [''e'', ''a'']]) = mset [''a'', ''b'', ''c'', ''d'', ''e'']"
proof -
  have h1: "0 < length [''a'', ''b'', ''c'', ''d'', ''e'']" by simp
  have h2: "(1::int) \<le> 2" by simp
  have h3: "(2::int) \<le> int (length [''a'', ''b'', ''c'', ''d'', ''e''])" by simp
  have r: "fst (assignParticipantsToGroups [''a'', ''b'', ''c'', ''d'', ''e''] 2 lowestIndexDraws 0) =
     Inr [[''b'', ''c'', ''d''], [''e'', ''a'']]"
    by code_simp
  from grouping_partition[OF h1 h2 h3, of lowestIndexDraws 0]
  obtain groups where
    "fst (assignParticipantsToGroups [''a'', ''b'', ''c'', ''d'', ''e''] 2 lowestIndexDraws 0) = Inr groups"
    "mset (concat groups) = mset [''a'', ''b'', ''c'', ''d'', ''e'']"
    by blast
  with r have "mset (concat [[''b'', ''c'', ''d''], [''e'', ''a'']]) = mset [''a'', ''b'', ''c'', ''d'', ''e'']"
    by simp
  with h1 h2 h3 r show ?thesis by blast
qed

text \<open>
  Claim C5. \<^verbatim>\<open>assignParticipantsToGroups\<close> fails, and then with \<open>InvalidGroupCount\<close>,
  exactly when the participant list is not empty and the requested count is below 1 or
  above the number of participants; on the empty list it returns the empty collection
  of groups for every count, drawing nothing.
\<close>

theorem grouping_invalid_count:
  "((\<exists>f. fst (assignParticipantsToGroups ps N rng d) = Inl (InvalidGroupCount f)) =
      (0 < length ps \<and> (N < 1 \<or> int (length ps) < N)))
   \<and> (isl (fst (assignParticipantsToGroups ps N rng d)) =
      (0 < length ps \<and> (N < 1 \<or> int (length ps) < N)))
   \<and> assignParticipantsToGroups [] N rng d = (Inr [], d)"
  by (simp add: assignParticipantsToGroups_def Let_def case_prod_beta)


theorem grouping_invalid_count_witness:
  "fst (assignParticipantsToGroups [''a'', ''b''] 3 lowestIndexDraws 0) =
     Inl (InvalidGroupCount ExceedsParticipants) \<and>
   fst (assignParticipantsToGroups [''a'', ''b''] 0 lowestIndexDraws 0) =
     Inl (InvalidGroupCount BelowOne) \<and>
   isl (fst (assignParticipantsToGroups [''a'', ''b''] (- 1) lowestIndexDraws 0)) \<and>
   assignParticipantsToGroups [] 7 lowestIndexDraws 0 = (Inr [], 0)"
proof -
  have a: "fst (assignParticipantsToGroups [''a'', ''b''] 3 lowestIndexDraws 0) =
     Inl (InvalidGroupCount ExceedsParticipants)"
    by (simp add: assignParticipantsToGroups_def)
  have b: "fst (assignParticipantsToGroups [''a'', ''b''] 0 lowestIndexDraws 0) =
     Inl (InvalidGroupCount BelowOne)"
    by (simp add: assignParticipantsToGroups_def)
  have c: "isl (fst (assignParticipantsToGroups [''a'', ''b''] (- 1) lowestIndexDraws 0))"
    using grouping_invalid_count[of "[''a'', ''b'']" "- 1" lowestIndexDraws 0] by simp
  have d: "assignParticipantsToGroups [] 7 lowestIndexDraws 0 = (Inr [], 0)"
    using grouping_invalid_count[of "[]" 7 lowestIndexDraws 0] by simp
  show ?thesis using a b c d by blast
qed

section \<open>Properties of restricted matching\<close>

lemma isRestricted_iff: "isRestricted g r rs \<longleftrightarrow> [g, r] \<in> set rs \<or> [r, g] \<in> set rs"
proof (induction rs)
  case Nil then show ?case by simp
next
  case (Cons pair rest)
  have two: "length pair = 2 \<Longrightarrow> pair = [pair ! 0, pair ! 1]"
    by (cases pair; cases "tl pair") auto
  show ?case
  proof (cases "length pair = 2")
    case True
    then show ?thesis using Cons two[OF True] by (auto simp del: One_nat_def)
  next
    case False
    then have "pair \<noteq> [g, r]" "pair \<noteq> [r, g]" by auto
    then show ?thesis using Cons False by auto
  qed
qed

lemma matchLoop_char:
  "i \<le> n \<Longrightarrow> matchLoop sg rs n i acc =
    (if \<forall>k \<in> {i..<n}. sg ! k \<noteq> sg ! ((k + 1) mod n) \<and> \<not> isRestricted (sg ! k) (sg ! ((k + 1) mod n)) rs
     then Some (acc @ map (\<lambda>k. \<lparr>giver = sg ! k, receiver = sg ! ((k + 1) mod n)\<rparr>) [i..<n])
     else None)"
proof (induction sg rs n i acc rule: matchLoop.induct)
  case (1 sg rs n i acc)
  show ?case
  proof (cases "i < n")
    case False
    then show ?thesis using "1.prems" by (subst matchLoop.simps) simp
  next
    case True
    let ?g = "sg ! i" and ?r = "sg ! ((i + 1) mod n)"
    have upt: "[i..<n] = i # [Suc i..<n]" using True by (simp add: upt_conv_Cons)
    have iv: "{i..<n} = insert i {Suc i..<n}" using True by auto
    show ?thesis
    proof (cases "?g = ?r \<or> isRestricted ?g ?r rs")
      case bad: True
      then have "matchLoop sg rs n i acc = None"
        using True by (subst matchLoop.simps) (auto simp: Let_def)
      moreover have "\<not> (\<forall>k \<in> {i..<n}. sg ! k \<noteq> sg ! ((k + 1) mod n) \<and> \<not> isRestricted (sg ! k) (sg ! ((k + 1) mod n)) rs)"
        using bad True by (auto simp: iv)
      ultimately show ?thesis by simp
    next
      case ok: False
      then have step: "matchLoop sg rs n i acc = matchLoop sg rs n (i + 1) (acc @ [\<lparr>giver = ?g, receiver = ?r\<rparr>])"
        using True by (subst matchLoop.simps) (auto simp: Let_def)
      have IH: "matchLoop sg rs n (i + 1) (acc @ [\<lparr>giver = ?g, receiver = ?r\<rparr>]) =
         (if \<forall>k \<in> {i + 1..<n}. sg ! k \<noteq> sg ! ((k + 1) mod n) \<and> \<not> isRestricted (sg ! k) (sg ! ((k + 1) mod n)) rs
     then Some ((acc @ [\<lparr>giver = ?g, receiver = ?r\<rparr>]) @ map (\<lambda>k. \<lparr>giver = sg ! k, receiver = sg ! ((k + 1) mod n)\<rparr>) [i + 1..<n])
     else None)"
        using ok True by (intro "1.IH"[OF True refl refl]) auto
      show ?thesis unfolding step IH using ok by (simp add: upt iv)
    qed
  qed
qed

lemma distinct_cycle_neq:
  assumes "distinct sg" "2 \<le> length sg" "k < length sg"
  shows "sg ! k \<noteq> sg ! ((k + 1) mod length sg)"
proof -
  have "0 < length sg" using assms(3) by (cases sg) simp_all
  then have "(k + 1) mod length sg < length sg" by (rule mod_less_divisor)
  moreover have "(k + 1) mod length sg \<noteq> k"
  proof (cases "k + 1 < length sg")
    case True then show ?thesis by simp
  next
    case False
    then have "k + 1 = length sg" using assms by simp
    then show ?thesis using assms by simp
  qed
  ultimately show ?thesis using assms by (simp add: nth_eq_iff_index_eq)
qed

lemma matchLoop_cycle:
  "matchLoop sg rs (length sg) 0 [] = (if cycleAllowed sg rs then Some (cyclePairs sg) else None)"
proof -
  have "(\<forall>k \<in> {0..<length sg}. sg ! k \<noteq> sg ! ((k + 1) mod length sg) \<and> \<not> isRestricted (sg ! k) (sg ! ((k + 1) mod length sg)) rs)
        = cycleAllowed sg rs"
    by (auto simp: cycleAllowed_def list_all_iff)
  then show ?thesis
    using matchLoop_char[of 0 "length sg" sg rs "[]"] by (simp add: cyclePairs_def)
qed

lemma cycleAllowed_distinct:
  assumes "distinct sg" "2 \<le> length sg"
  shows "cycleAllowed sg rs =
         list_all (\<lambda>i. \<not> isRestricted (sg ! i) (sg ! ((i + 1) mod length sg)) rs) [0..<length sg]"
  using distinct_cycle_neq[OF assms] by (auto simp: cycleAllowed_def list_all_iff)

lemma givers_cyclePairs: "map giver (cyclePairs sg) = sg"
  by (simp add: cyclePairs_def comp_def map_nth)

lemma receivers_cyclePairs: "map receiver (cyclePairs sg) = rotate1 sg"
proof (cases sg)
  case Nil then show ?thesis by (simp add: cyclePairs_def)
next
  case (Cons x xs)
  have "map receiver (cyclePairs sg) = map (\<lambda>i. sg ! ((i + 1) mod length sg)) [0..<length sg]"
    by (simp add: cyclePairs_def comp_def)
  also have "\<dots> = rotate1 sg"
    by (rule nth_equalityI) (simp_all add: nth_rotate1)
  finally show ?thesis .
qed



lemma distinct_shuffle: "distinct (fst (shuffle arr rng d)) = distinct arr"
  by (rule mset_eq_imp_distinct_iff) simp

lemma set_shuffle: "set (fst (shuffle arr rng d)) = set arr"
  by (rule mset_eq_setD) simp

lemma attempt_step:
  assumes "a < maxRetries"
  shows "attemptLoop grp rs rng a d =
     (if cycleAllowed (fst (shuffle grp rng d)) rs
      then (Inr (cyclePairs (fst (shuffle grp rng d))), d + (length grp - 1))
      else attemptLoop grp rs rng (a + 1) (d + (length grp - 1)))"
proof -
  let ?sg = "fst (shuffle grp rng d)"
  have "matchLoop ?sg rs (length ?sg) 0 [] = (if cycleAllowed ?sg rs then Some (cyclePairs ?sg) else None)"
    by (rule matchLoop_cycle)
  then have m: "matchLoop ?sg rs (length grp) 0 [] = (if cycleAllowed ?sg rs then Some (cyclePairs ?sg) else None)"
    by simp
  show ?thesis
    using assms m
    by (subst attemptLoop.simps) (simp add: case_prod_beta Let_def)
qed

lemma attempt_end: "\<not> a < maxRetries \<Longrightarrow> attemptLoop grp rs rng a d = (Inl (AssignmentInfeasible grp), d)"
  by (subst attemptLoop.simps) simp



lemma attemptLoop_sound:
  shows "a + m = maxRetries \<Longrightarrow> fst (attemptLoop grp rs rng a d) = Inr ms \<Longrightarrow>
         \<exists>d'. ms = cyclePairs (fst (shuffle grp rng d')) \<and> cycleAllowed (fst (shuffle grp rng d')) rs"
proof (induction m arbitrary: a d)
  case 0
  then show ?case by (simp add: attempt_end)
next
  case (Suc m)
  have a: "a < maxRetries" using Suc.prems by simp
  note st = attempt_step[OF a, of grp rs rng d]
  show ?case
  proof (cases "cycleAllowed (fst (shuffle grp rng d)) rs")
    case True
    then have "ms = cyclePairs (fst (shuffle grp rng d))" using st Suc.prems(2) by simp
    then show ?thesis using True by blast
  next
    case False
    then have "fst (attemptLoop grp rs rng (a + 1) (d + (length grp - 1))) = Inr ms"
      using st Suc.prems(2) by simp
    then show ?thesis using Suc.IH[of "a + 1" "d + (length grp - 1)"] Suc.prems(1) by simp
  qed
qed


lemma cyclePairs_valid:
  assumes "cycleAllowed sg rs"
  shows "\<forall>m \<in> set (cyclePairs sg). giver m \<noteq> receiver m \<and> \<not> isRestricted (giver m) (receiver m) rs"
proof
  fix m assume "m \<in> set (cyclePairs sg)"
  then obtain i where i: "i < length sg" "m = \<lparr>giver = sg ! i, receiver = sg ! ((i + 1) mod length sg)\<rparr>"
    by (auto simp: cyclePairs_def)
  have "sg ! i \<noteq> sg ! ((i + 1) mod length sg) \<and> \<not> isRestricted (sg ! i) (sg ! ((i + 1) mod length sg)) rs"
    using assms i(1) by (simp add: cycleAllowed_def list_all_iff)
  then show "giver m \<noteq> receiver m \<and> \<not> isRestricted (giver m) (receiver m) rs"
    using i(2) by simp
qed

text \<open>
  Claim C1. For a group of \<open>n \<ge> 2\<close> distinct names and any restriction list, whenever
  \<^verbatim>\<open>assignSecretAngels\<close> returns normally its result has exactly \<open>n\<close> entries, every
  member of the group is the giver of exactly one entry and the receiver of exactly one
  entry, no entry has its giver as receiver, and no entry is, in either orientation, a
  pair of the restriction list.
\<close>

theorem assignSecretAngels_valid:
  assumes "2 \<le> length grp" "distinct grp" "fst (assignSecretAngels grp rs rng d) = Inr ms"
  shows "length ms = length grp
     \<and> distinct (map giver ms) \<and> set (map giver ms) = set grp
     \<and> distinct (map receiver ms) \<and> set (map receiver ms) = set grp
     \<and> (\<forall>m \<in> set ms. giver m \<noteq> receiver m
           \<and> [giver m, receiver m] \<notin> set rs \<and> [receiver m, giver m] \<notin> set rs)"
proof -
  have "fst (attemptLoop grp rs rng 0 d) = Inr ms"
    using assms(1,3) by (simp add: assignSecretAngels_def)
  then obtain d' where d': "ms = cyclePairs (fst (shuffle grp rng d'))"
      "cycleAllowed (fst (shuffle grp rng d')) rs"
    using attemptLoop_sound[of 0 maxRetries grp rs rng d ms] by auto
  let ?sg = "fst (shuffle grp rng d')"
  have sg: "distinct ?sg" "length ?sg = length grp" "set ?sg = set grp"
    using assms(2) by (simp_all add: distinct_shuffle set_shuffle)
  have g: "map giver ms = ?sg" unfolding d'(1) by (rule givers_cyclePairs)
  have r: "map receiver ms = rotate1 ?sg" unfolding d'(1) by (rule receivers_cyclePairs)
  have len: "length ms = length grp" using g sg(2) by (metis length_map)
  have v: "\<forall>m \<in> set ms. giver m \<noteq> receiver m \<and> \<not> isRestricted (giver m) (receiver m) rs"
    unfolding d'(1) using d'(2) by (rule cyclePairs_valid)
  show ?thesis using len g r sg v by (simp add: isRestricted_iff)
qed

theorem assignSecretAngels_valid_witness:
  "2 \<le> length [''A'',''B'',''C'',''D''] \<and> distinct [''A'',''B'',''C'',''D''] \<and>
   fst (assignSecretAngels [''A'',''B'',''C'',''D''] [[''A'',''B'']] countingDraws 0) =
     Inr [\<lparr>giver = ''A'', receiver = ''C''\<rparr>, \<lparr>giver = ''C'', receiver = ''B''\<rparr>,
          \<lparr>giver = ''B'', receiver = ''D''\<rparr>, \<lparr>giver = ''D'', receiver = ''A''\<rparr>] \<and>
   set (map giver [\<lparr>giver = ''A'', receiver = ''C''\<rparr>, \<lparr>giver = ''C'', receiver = ''B''\<rparr>,
          \<lparr>giver = ''B'', receiver = ''D''\<rparr>, \<lparr>giver = ''D'', receiver = ''A''\<rparr>]) =
     set [''A'',''B'',''C'',''D'']"
proof -
  have h1: "2 \<le> length [''A'',''B'',''C'',''D'']" by simp
  have h2: "distinct [''A'',''B'',''C'',''D'']" by simp
  have h3: "fst (assignSecretAngels [''A'',''B'',''C'',''D''] [[''A'',''B'']] countingDraws 0) =
     Inr [\<lparr>giver = ''A'', receiver = ''C''\<rparr>, \<lparr>giver = ''C'', receiver = ''B''\<rparr>,
          \<lparr>giver = ''B'', receiver = ''D''\<rparr>, \<lparr>giver = ''D'', receiver = ''A''\<rparr>]"
    by code_simp
  show ?thesis using h1 h2 h3 assignSecretAngels_valid[OF h1 h2 h3] by blast
qed









section \<open>Properties of the restriction parser\<close>


lemma restrictionLines_format:
  "restrictionLines ls roster acc =
     (if list_all (wellFormedLine roster) (filter (\<lambda>l. l \<noteq> []) (map trim ls))
      then Some (acc @ map lineNames (filter (\<lambda>l. l \<noteq> []) (map trim ls)))
      else None)"
proof (induction ls arbitrary: acc)
  case Nil
  then show ?case by simp
next
  case (Cons line rest)
  show ?case
  proof (cases "trim line = []")
    case True
    then show ?thesis using Cons.IH[of acc] by simp
  next
    case False
    let ?pair = "lineNames (trim line)"
    have two: "length ?pair = 2 \<Longrightarrow> ?pair = [?pair ! 0, ?pair ! 1]"
      by (cases ?pair; cases "tl ?pair") auto
    show ?thesis
    proof (cases "wellFormedLine roster (trim line)")
      case wf: True
      then obtain a b where ab: "?pair = [a, b]" "a \<noteq> []" "b \<noteq> []" "a \<in> set roster" "b \<in> set roster" "a \<noteq> b"
        by (auto simp: wellFormedLine_def split: list.splits)
      have "restrictionLines (line # rest) roster acc = restrictionLines rest roster (acc @ [?pair])"
        using False ab by (simp add: lineNames_def Let_def)
      then show ?thesis using wf False Cons.IH[of "acc @ [?pair]"] by simp
    next
      case nwf: False
      have "restrictionLines (line # rest) roster acc = None"
      proof (cases "length ?pair = 2")
        case True
        from two[OF True] obtain a b where ab: "?pair = [a, b]" by blast
        with nwf have "a = [] \<or> b = [] \<or> a \<notin> set roster \<or> b \<notin> set roster \<or> a = b"
          by (auto simp: wellFormedLine_def)
        then show ?thesis using False ab
          by (auto simp: lineNames_def Let_def)
      next
        case False
        then show ?thesis using \<open>trim line \<noteq> []\<close> by (simp add: lineNames_def Let_def)
      qed
      then show ?thesis using nwf False by simp
    qed
  qed
qed

lemma trim_Nil [simp]: "trim [] = []"
  by (simp add: trim_def)

text \<open>
  Claim C6, as amended. For every roster and every input of at most 5000 characters,
  \<^verbatim>\<open>validateRestrictionsInput\<close> computes the restriction format: the token "none" in
  any letter case, and input that is empty or only white space, give the empty list;
  any other input gives exactly the trimmed comma-separated name pairs of its non-blank
  lines, in order, unless one such line does not split into exactly two non-empty
  trimmed names, names somebody outside the roster, or pairs a name with itself, in
  which case the whole input is rejected and no pair is delivered.
\<close>

theorem restrictions_within_cap:
  assumes "length input \<le> MAX_RESTRICTIONS_INPUT_LENGTH"
  shows "validateRestrictionsInput input roster = restrictionFormat input roster"
proof (cases "input = []")
  case True
  then show ?thesis by (simp add: validateRestrictionsInput_def restrictionFormat_def)
next
  case False
  then show ?thesis
    using assms
    by (simp add: validateRestrictionsInput_def restrictionFormat_def Let_def
        restrictionLines_format nonBlankLines_def)
qed

theorem restrictions_within_cap_witness:
  "length ''Alice, Bob\<newline>Carol, Dave'' \<le> MAX_RESTRICTIONS_INPUT_LENGTH \<and>
   restrictionFormat ''Alice, Bob\<newline>Carol, Dave'' [''Alice'', ''Bob'', ''Carol'', ''Dave''] =
     Some [[''Alice'', ''Bob''], [''Carol'', ''Dave'']] \<and>
   validateRestrictionsInput ''Alice, Bob\<newline>Carol, Dave'' [''Alice'', ''Bob'', ''Carol'', ''Dave''] =
     Some [[''Alice'', ''Bob''], [''Carol'', ''Dave'']] \<and>
   validateRestrictionsInput ''Alice, Bob\<newline>Carol, Eve'' [''Alice'', ''Bob'', ''Carol'', ''Dave''] = None \<and>
   validateRestrictionsInput '' NoNe '' [''Alice'', ''Bob''] = Some []"
proof -
  have h: "length ''Alice, Bob\<newline>Carol, Dave'' \<le> MAX_RESTRICTIONS_INPUT_LENGTH"
    by (simp add: MAX_RESTRICTIONS_INPUT_LENGTH_def)
  have f: "restrictionFormat ''Alice, Bob\<newline>Carol, Dave'' [''Alice'', ''Bob'', ''Carol'', ''Dave''] =
     Some [[''Alice'', ''Bob''], [''Carol'', ''Dave'']]"
    by code_simp
  have v: "validateRestrictionsInput ''Alice, Bob\<newline>Carol, Dave'' [''Alice'', ''Bob'', ''Carol'', ''Dave''] =
     Some [[''Alice'', ''Bob''], [''Carol'', ''Dave'']]"
    using restrictions_within_cap[OF h, of "[''Alice'', ''Bob'', ''Carol'', ''Dave'']"] f by simp
  have e: "validateRestrictionsInput ''Alice, Bob\<newline>Carol, Eve'' [''Alice'', ''Bob'', ''Carol'', ''Dave''] = None"
    by code_simp
  have n: "validateRestrictionsInput '' NoNe '' [''Alice'', ''Bob''] = Some []"
    by code_simp
  show ?thesis using h f v e n by blast
qed

lemma trim_spaces: "trim (replicate n (CHR 0x20)) = []"
proof -
  have "dropWhile isWhiteSpace (replicate n (CHR 0x20)) = []"
    by (simp add: dropWhile_eq_Nil_conv isWhiteSpace_def)
  then show ?thesis by (simp add: trim_def)
qed

text \<open>
  Claim C6 as it was stated fails beyond the length cap: 5001 spaces are white space
  only, and the result is the invalid signal, not the empty list.
\<close>

theorem restrictions_blank_over_cap_counterexample:
  "trim (replicate 5001 (CHR 0x20)) = [] \<and>
   validateRestrictionsInput (replicate 5001 (CHR 0x20)) [] = None"
  by (simp add: trim_spaces validateRestrictionsInput_def MAX_RESTRICTIONS_INPUT_LENGTH_def)

lemma length_concat_replicate: "length (concat (replicate n xs)) = n * length xs"
  by (induction n) simp_all

text \<open>
  Claim C10. \<^verbatim>\<open>validateRestrictionsInput\<close> returns the invalid signal for every input
  longer than 5000 characters, whatever its lines are: the cap is tested before any
  line is parsed.
\<close>

theorem restrictions_length_cap:
  assumes "length input > MAX_RESTRICTIONS_INPUT_LENGTH"
  shows "validateRestrictionsInput input roster = None"
proof -
  have "input \<noteq> []" using assms by auto
  then show ?thesis using assms by (simp add: validateRestrictionsInput_def)
qed

theorem restrictions_length_cap_witness:
  "length (concat (replicate 501 ''Alice,Bob\<newline>'')) > MAX_RESTRICTIONS_INPUT_LENGTH \<and>
   wellFormedLine [''Alice'', ''Bob''] ''Alice,Bob'' \<and>
   validateRestrictionsInput (concat (replicate 501 ''Alice,Bob\<newline>'')) [''Alice'', ''Bob''] = None"
proof -
  have h: "length (concat (replicate 501 ''Alice,Bob\<newline>'')) > MAX_RESTRICTIONS_INPUT_LENGTH"
    by (simp add: length_concat_replicate MAX_RESTRICTIONS_INPUT_LENGTH_def)
  have w: "wellFormedLine [''Alice'', ''Bob''] ''Alice,Bob''" by code_simp
  show ?thesis using h w restrictions_length_cap[OF h, of "[''Alice'', ''Bob'']"] by blast
qed

section \<open>Properties of the store and of the steps inside a transaction\<close>


lemma query_Rollback:
  "query e Rollback w =
     (if env_faults e (queryCount w) then QueryError else Done,
      w\<lparr>queryCount := Suc (queryCount w), db := (db w)\<lparr>txn := None\<rparr>\<rparr>)"
  by (simp add: query_def Let_def)

lemma query_Begin:
  "query e Begin w =
     (if env_faults e (queryCount w) then (QueryError, w\<lparr>queryCount := Suc (queryCount w)\<rparr>)
      else (Done, w\<lparr>queryCount := Suc (queryCount w), db := (db w)\<lparr>txn := Some (visible (db w))\<rparr>\<rparr>))"
  by (simp add: query_def Let_def)

lemma query_Commit:
  "query e Commit w =
     (if env_faults e (queryCount w)
      then (QueryError, w\<lparr>queryCount := Suc (queryCount w), db := (db w)\<lparr>txn := None\<rparr>\<rparr>)
      else (Done, w\<lparr>queryCount := Suc (queryCount w), db := \<lparr>committed = visible (db w), txn = None\<rparr>\<rparr>))"
  by (simp add: query_def Let_def)

lemma query_write:
  assumes "s \<noteq> Begin" "s \<noteq> Commit" "s \<noteq> Rollback"
  shows "query e s w =
     (if env_faults e (queryCount w) then (QueryError, w\<lparr>queryCount := Suc (queryCount w)\<rparr>)
      else if fst (execute s (visible (db w))) = QueryError
           then (QueryError, w\<lparr>queryCount := Suc (queryCount w)\<rparr>)
           else (fst (execute s (visible (db w))),
                 w\<lparr>queryCount := Suc (queryCount w),
                   db := store (snd (execute s (visible (db w)))) (db w)\<rparr>))"
  using assms
  by (cases s) (auto simp: query_def Let_def split: prod.splits result.splits)

lemma execute_participants:
  assumes "s = TruncateGroupData \<or> (\<exists>g. s = InsertGroup g) \<or> (\<exists>g p. s = InsertMember g p)
         \<or> (\<exists>g a b. s = InsertAssignment g a b)"
  shows "tg_participants (snd (execute s t)) = tg_participants t"
  using assms by (auto simp: Let_def)

lemma store_props:
  "txn dbs \<noteq> None \<Longrightarrow> committed (store t dbs) = committed dbs"
  "txn dbs \<noteq> None \<Longrightarrow> txn (store t dbs) = Some t"
  "txn dbs \<noteq> None \<Longrightarrow> visible (store t dbs) = t"
  by (auto simp: store_def visible_def split: option.splits)

lemma faultFree_iff: "faultFree e a b \<longleftrightarrow> (\<forall>k. a \<le> k \<and> k < b \<longrightarrow> \<not> env_faults e k)"
  by (auto simp: faultFree_def list_all_iff)

lemma faultFree_empty [simp]: "faultFree e a a"
  by (simp add: faultFree_def)

lemma faultFree_append:
  assumes "faultFree e a b" "faultFree e b c"
  shows "faultFree e a c"
  unfolding faultFree_iff
proof (intro allI impI)
  fix k assume k: "a \<le> k \<and> k < c"
  show "\<not> env_faults e k"
  proof (cases "k < b")
    case True
    then show ?thesis using assms(1) k unfolding faultFree_iff by blast
  next
    case False
    then have "b \<le> k" by simp
    then show ?thesis using assms(2) k unfolding faultFree_iff by blast
  qed
qed

lemma faultFree_single: "\<not> env_faults e a \<Longrightarrow> faultFree e a (Suc a)"
  by (simp add: faultFree_def)

lemma txnProgress_refl: "txn (db w) \<noteq> None \<Longrightarrow> txnProgress e w Proceed w"
  by (simp add: txnProgress_def)

lemma txnProgress_trans:
  assumes "txnProgress e w Proceed w1" "txnProgress e w1 f w2"
  shows "txnProgress e w f w2"
proof -
  have a: "committed (db w1) = committed (db w)" "queryCount w \<le> queryCount w1"
    "txn (db w1) \<noteq> None" "outbox w1 = outbox w" "faultFree e (queryCount w) (queryCount w1)"
    "tg_participants (visible (db w1)) = tg_participants (visible (db w))"
    using assms(1) by (simp_all add: txnProgress_def)
  have b: "committed (db w2) = committed (db w1)" "queryCount w1 \<le> queryCount w2"
    "f = Broke \<longrightarrow> txn (db w2) = None"
    using assms(2) by (simp_all add: txnProgress_def)
  have c: "txn (db w2) \<noteq> None \<and> outbox w2 = outbox w \<and>
         faultFree e (queryCount w) (queryCount w2) \<and>
         tg_participants (visible (db w2)) = tg_participants (visible (db w))" if "f = Proceed"
  proof -
    have "txn (db w2) \<noteq> None" "outbox w2 = outbox w1"
      "faultFree e (queryCount w1) (queryCount w2)"
      "tg_participants (visible (db w2)) = tg_participants (visible (db w1))"
      using assms(2) that by (simp_all add: txnProgress_def)
    then show ?thesis using a faultFree_append[of e "queryCount w" "queryCount w1" "queryCount w2"] by simp
  qed
  show ?thesis unfolding txnProgress_def using a b c by simp
qed

lemma txnProgress_write:
  assumes "query e s w = (r, w')" "txn (db w) \<noteq> None"
    and st: "s = TruncateGroupData \<or> (\<exists>g. s = InsertGroup g) \<or> (\<exists>g p. s = InsertMember g p)
         \<or> (\<exists>g a b. s = InsertAssignment g a b)"
  shows "txnProgress e w (if r = QueryError then Thrown else Proceed) w'"
proof -
  have ns: "s \<noteq> Begin" "s \<noteq> Commit" "s \<noteq> Rollback" using st by auto
  note q = query_write[OF ns, of e w]
  note ep = execute_participants[OF st, of "visible (db w)"]
  show ?thesis
    using assms(1,2) ep unfolding q txnProgress_def
    by (auto simp: store_props faultFree_single split: if_splits)
qed

lemma txnProgress_rollback:
  assumes "query e Rollback w = (r, w')"
  shows "txnProgress e w (if r = QueryError then Thrown else Broke) (sendMessage c m w')"
  using assms by (auto simp: query_Rollback txnProgress_def sendMessage_def)

lemma txnProgress_rollback_thrown:
  assumes "query e Rollback w = (r, w')"
  shows "txnProgress e w Thrown w'"
  using assms by (auto simp: query_Rollback txnProgress_def)

lemma txnProgress_draw: "txn (db w) \<noteq> None \<Longrightarrow> txnProgress e w Proceed (w\<lparr>drawCount := d\<rparr>)"
  by (simp add: txnProgress_def)

lemma txnProgress_Thrown: "txnProgress e w f w' \<Longrightarrow> txnProgress e w Thrown w'"
  by (simp add: txnProgress_def)


lemma insertMembers_progress:
  "txn (db w) \<noteq> None \<Longrightarrow> insertMembers e c pm gid nms w = (f, w') \<Longrightarrow> txnProgress e w f w'"
proof (induction nms arbitrary: w)
  case Nil
  then show ?case by (auto simp: txnProgress_refl)
next
  case (Cons nm rest)
  show ?case
  proof (cases "pm nm")
    case None
    obtain r w1 where q: "query e Rollback w = (r, w1)" by (cases "query e Rollback w")
    show ?thesis
      using Cons.prems(2) None q txnProgress_rollback[OF q, of c "MemberIdMissingNotice nm"]
        txnProgress_rollback_thrown[OF q]
      by (cases r) auto
  next
    case (Some pid)
    obtain r w1 where q: "query e (InsertMember gid pid) w = (r, w1)"
      by (cases "query e (InsertMember gid pid) w")
    have p: "txnProgress e w (if r = QueryError then Thrown else Proceed) w1"
      by (rule txnProgress_write[OF q Cons.prems(1)]) blast
    show ?thesis
    proof (cases "r = QueryError")
      case True
      then show ?thesis using Cons.prems(2) Some q p by auto
    next
      case False
      then have rec: "insertMembers e c pm gid rest w1 = (f, w')"
        using Cons.prems(2) Some q by (cases r) auto
      have open1: "txn (db w1) \<noteq> None" using p False by (simp add: txnProgress_def)
      show ?thesis using txnProgress_trans[OF _ Cons.IH[OF open1 rec], of w] p False by simp
    qed
  qed
qed

lemma insertAssignments_progress:
  "txn (db w) \<noteq> None \<Longrightarrow> insertAssignments e c pm gid ms summary assigned w = (f, summary', assigned', w')
     \<Longrightarrow> txnProgress e w f w'"
proof (induction ms arbitrary: w summary assigned)
  case Nil
  then show ?case by (auto simp: txnProgress_refl)
next
  case (Cons m rest)
  show ?case
  proof (cases "\<exists>g r. pm (giver m) = Some g \<and> pm (receiver m) = Some r")
    case False
    obtain r w1 where q: "query e Rollback w = (r, w1)" by (cases "query e Rollback w")
    show ?thesis
      using Cons.prems(2) False q txnProgress_rollback[OF q, of c AssignmentIdMissingNotice]
        txnProgress_rollback_thrown[OF q]
      by (cases r; cases "pm (giver m)"; cases "pm (receiver m)") auto
  next
    case True
    then obtain gi ri where ids: "pm (giver m) = Some gi" "pm (receiver m) = Some ri" by blast
    obtain r w1 where q: "query e (InsertAssignment gid gi ri) w = (r, w1)"
      by (cases "query e (InsertAssignment gid gi ri) w")
    have p: "txnProgress e w (if r = QueryError then Thrown else Proceed) w1"
      by (rule txnProgress_write[OF q Cons.prems(1)]) blast
    show ?thesis
    proof (cases "r = QueryError")
      case True
      then show ?thesis using Cons.prems(2) ids q p by auto
    next
      case False
      then have rec: "insertAssignments e c pm gid rest (summary @ [MatchLine (giver m) (receiver m)])
                        (assigned + 1) w1 = (f, summary', assigned', w')"
        using Cons.prems(2) ids q by (cases r) auto
      have open1: "txn (db w1) \<noteq> None" using p False by (simp add: txnProgress_def)
      show ?thesis using txnProgress_trans[OF _ Cons.IH[OF open1 rec], of w] p False by simp
    qed
  qed
qed


lemma groupsLoop_progress:
  "txn (db w) \<noteq> None \<Longrightarrow>
   groupsLoop e c pm rs gs i summary assigned w = (f, summary', assigned', w') \<Longrightarrow>
   txnProgress e w f w'"
proof (induction gs arbitrary: w i summary assigned)
  case Nil
  then show ?case by (auto simp: txnProgress_refl)
next
  case (Cons g rest)
  show ?case
  proof (cases "length g < 2")
    case True
    then have "groupsLoop e c pm rs rest (i + 1) (summary @ [SkippedLine (i + 1) (length g)]) assigned w
               = (f, summary', assigned', w')"
      using Cons.prems(2) by simp
    then show ?thesis using Cons.IH[OF Cons.prems(1)] by blast
  next
    case big: False
    define matched where "matched = assignSecretAngels g rs (env_rng e) (drawCount w)"
    define w1 where "w1 = w\<lparr>drawCount := snd matched\<rparr>"
    define summary1 where "summary1 = summary @ [HeaderLine (i + 1) (length g)]"
    have p1: "txnProgress e w Proceed w1"
      unfolding w1_def by (rule txnProgress_draw[OF Cons.prems(1)])
    have open1: "txn (db w1) \<noteq> None" using p1 by (simp add: txnProgress_def)
    obtain rb wb where qb: "query e Rollback w1 = (rb, wb)" by (cases "query e Rollback w1")
    show ?thesis
    proof (cases "fst matched")
      case (Inl matchError)
      have "(f, summary', assigned', w') =
            (if rb = QueryError then (Thrown, summary1, assigned, wb)
             else (Broke, summary1, assigned, sendMessage c (MatchingFailedNotice (i + 1) g matchError) wb))"
        using Cons.prems(2) big Inl qb
        unfolding matched_def w1_def summary1_def
        by (cases rb) (simp_all add: Let_def)
      then have "txnProgress e w1 f w'"
        using txnProgress_rollback[OF qb, of c "MatchingFailedNotice (i + 1) g matchError"]
          txnProgress_rollback_thrown[OF qb]
        by (auto split: if_splits)
      then show ?thesis using txnProgress_trans[OF p1] by blast
    next
      case (Inr ms)
      show ?thesis
      proof (cases "length ms = 0")
        case True
        have "(f, summary', assigned', w') =
            (if rb = QueryError then (Thrown, summary1, assigned, wb)
             else (Broke, summary1, assigned, sendMessage c (MatchingEmptyNotice (i + 1)) wb))"
          using Cons.prems(2) big Inr qb True
          unfolding matched_def w1_def summary1_def
          by (cases rb) (simp_all add: Let_def)
        then have "txnProgress e w1 f w'"
          using txnProgress_rollback[OF qb, of c "MatchingEmptyNotice (i + 1)"]
            txnProgress_rollback_thrown[OF qb]
          by (auto split: if_splits)
        then show ?thesis using txnProgress_trans[OF p1] by blast
      next
        case nonempty: False
        obtain r2 w2 where q2: "query e (InsertGroup (groupLabel (i + 1))) w1 = (r2, w2)"
          by (cases "query e (InsertGroup (groupLabel (i + 1))) w1")
        have p2: "txnProgress e w1 (if r2 = QueryError then Thrown else Proceed) w2"
          by (rule txnProgress_write[OF q2 open1]) blast
        show ?thesis
        proof (cases "\<exists>gid. r2 = GroupId gid")
          case False
          then have "(f, summary', assigned', w') = (Thrown, summary1, assigned, w2)"
            using Cons.prems(2) big Inr q2 nonempty
            unfolding matched_def w1_def summary1_def
            by (cases r2) (simp_all add: Let_def)
          then have "txnProgress e w1 f w'" using txnProgress_Thrown[OF p2] by simp
          then show ?thesis using txnProgress_trans[OF p1] by blast
        next
          case True
          then obtain gid where gid: "r2 = GroupId gid" by blast
          then have p2': "txnProgress e w1 Proceed w2" using p2 by simp
          have p12: "txnProgress e w Proceed w2" by (rule txnProgress_trans[OF p1 p2'])
          have open2: "txn (db w2) \<noteq> None" using p2' by (simp add: txnProgress_def)
          obtain f3 w3 where m3: "insertMembers e c pm gid g w2 = (f3, w3)"
            by (cases "insertMembers e c pm gid g w2")
          have p3: "txnProgress e w2 f3 w3" by (rule insertMembers_progress[OF open2 m3])
          show ?thesis
          proof (cases "f3 = Proceed")
            case False
            then have "(f, summary', assigned', w') = (f3, summary1, assigned, w3)"
              using Cons.prems(2) big Inr q2 nonempty gid m3
              unfolding matched_def w1_def summary1_def
              by (cases f3) (simp_all add: Let_def)
            then show ?thesis using txnProgress_trans[OF p12 p3] by simp
          next
            case f3: True
            have p13: "txnProgress e w Proceed w3" using txnProgress_trans[OF p12 p3] f3 by simp
            have open3: "txn (db w3) \<noteq> None" using p13 by (simp add: txnProgress_def)
            obtain f4 s4 c4 w4 where a4:
              "insertAssignments e c pm gid ms summary1 assigned w3 = (f4, s4, c4, w4)"
              by (cases "insertAssignments e c pm gid ms summary1 assigned w3") auto
            have p4: "txnProgress e w3 f4 w4" by (rule insertAssignments_progress[OF open3 a4])
            show ?thesis
            proof (cases "f4 = Proceed")
              case False
              then have "(f, summary', assigned', w') = (f4, s4, c4, w4)"
                using Cons.prems(2) big Inr q2 nonempty gid m3 f3 a4
                unfolding matched_def w1_def summary1_def
                by (cases f4) (simp_all add: Let_def)
              then show ?thesis using txnProgress_trans[OF p13 p4] by simp
            next
              case f4: True
              have p14: "txnProgress e w Proceed w4" using txnProgress_trans[OF p13 p4] f4 by simp
              have open4: "txn (db w4) \<noteq> None" using p14 by (simp add: txnProgress_def)
              have "groupsLoop e c pm rs rest (i + 1) s4 c4 w4 = (f, summary', assigned', w')"
                using Cons.prems(2) big Inr q2 nonempty gid m3 f3 a4 f4
                unfolding matched_def w1_def summary1_def
                by (simp add: Let_def)
              then have "txnProgress e w4 f w'" by (rule Cons.IH[OF open4])
              then show ?thesis by (rule txnProgress_trans[OF p14])
            qed
          qed
        qed
      qed
    qed
  qed
qed


lemma tryCreateGroups_outcome:
  assumes closed: "txn (db w) = None"
    and run: "tryCreateGroups e c names pm n rs w = (f, w')"
  shows "(f \<noteq> Thrown \<longrightarrow> txn (db w') = None) \<and>
         (committed (db w') = committed (db w) \<and> f \<noteq> Proceed \<or>
          f = Proceed \<and> (\<exists>k a s. outbox w' = outbox w @ [(c, SuccessNotice k a s)]) \<and>
            faultFree e (queryCount w) (queryCount w') \<and>
            tg_participants (committed (db w')) = tg_participants (committed (db w)))"
proof -
  obtain r1 w1 where q1: "query e Begin w = (r1, w1)" by (cases "query e Begin w")
  show ?thesis
  proof (cases "r1 = QueryError")
    case True
    then have "(f, w') = (Thrown, w1)" using run q1 by (simp add: tryCreateGroups_def)
    moreover have "committed (db w1) = committed (db w)"
      using q1 by (auto simp: query_Begin split: if_splits)
    ultimately show ?thesis by simp
  next
    case ok1: False
    have b: "\<not> env_faults e (queryCount w)" "queryCount w1 = Suc (queryCount w)"
      "committed (db w1) = committed (db w)" "txn (db w1) = Some (committed (db w))"
      "outbox w1 = outbox w"
      using q1 ok1 closed by (auto simp: query_Begin visible_def split: if_splits)
    have open1: "txn (db w1) \<noteq> None" using b(4) by simp
    have vis1: "visible (db w1) = committed (db w)" using b(4) by (simp add: visible_def)
    obtain r2 w2 where q2: "query e TruncateGroupData w1 = (r2, w2)"
      by (cases "query e TruncateGroupData w1")
    have p2: "txnProgress e w1 (if r2 = QueryError then Thrown else Proceed) w2"
      by (rule txnProgress_write[OF q2 open1]) blast
    show ?thesis
    proof (cases "r2 = QueryError")
      case True
      then have "(f, w') = (Thrown, w2)"
        using run q1 q2 ok1 by (cases r1) (simp_all add: tryCreateGroups_def)
      moreover have "committed (db w2) = committed (db w)"
        using p2 b(3) by (simp add: txnProgress_def)
      ultimately show ?thesis by simp
    next
      case ok2: False
      define grouped where "grouped = assignParticipantsToGroups names n (env_rng e) (drawCount w2)"
      define w3 where "w3 = w2\<lparr>drawCount := snd grouped\<rparr>"
      have p2': "txnProgress e w1 Proceed w2" using p2 ok2 by simp
      have open2: "txn (db w2) \<noteq> None" using p2' by (simp add: txnProgress_def)
      have p3: "txnProgress e w1 Proceed w3"
        unfolding w3_def by (rule txnProgress_trans[OF p2' txnProgress_draw[OF open2]])
      have open3: "txn (db w3) \<noteq> None" using p3 by (simp add: txnProgress_def)
      have unfold: "tryCreateGroups e c names pm n rs w =
          (case fst grouped of
             Inl groupingError \<Rightarrow> (Thrown, w3)
           | Inr createdGroupsByName \<Rightarrow>
               (case groupsLoop e c pm rs createdGroupsByName 0 [] 0 w3 of
                  (Proceed, summary, assigned, w4) \<Rightarrow>
                    (case query e Commit w4 of
                       (QueryError, w5) \<Rightarrow> (Thrown, w5)
                     | (r5, w5) \<Rightarrow>
                         (Proceed,
                          sendMessage c (SuccessNotice (length createdGroupsByName) assigned summary) w5))
                | (stopped, summary, assigned, w4) \<Rightarrow> (stopped, w4)))"
        using q1 q2 ok1 ok2 unfolding grouped_def w3_def
        by (cases r1; cases r2) (simp_all add: tryCreateGroups_def Let_def)
      show ?thesis
      proof (cases "fst grouped")
        case (Inl groupingError)
        then have "(f, w') = (Thrown, w3)" using run unfold by simp
        moreover have "committed (db w3) = committed (db w)"
          using p3 b(3) by (simp add: txnProgress_def)
        ultimately show ?thesis by simp
      next
        case (Inr groups)
        obtain f4 s4 c4 w4 where g4: "groupsLoop e c pm rs groups 0 [] 0 w3 = (f4, s4, c4, w4)"
          by (cases "groupsLoop e c pm rs groups 0 [] 0 w3") auto
        have p4: "txnProgress e w3 f4 w4" by (rule groupsLoop_progress[OF open3 g4])
        have p14: "txnProgress e w1 f4 w4" by (rule txnProgress_trans[OF p3 p4])
        show ?thesis
        proof (cases "f4 = Proceed")
          case False
          then have "(f, w') = (f4, w4)" using run unfold Inr g4 by (cases f4) simp_all
          moreover have "committed (db w4) = committed (db w)" "f4 = Broke \<longrightarrow> txn (db w4) = None"
            using p14 b(3) by (simp_all add: txnProgress_def)
          moreover have "f4 = Broke \<or> f4 = Thrown" using False by (cases f4) simp_all
          ultimately show ?thesis by auto
        next
          case f4: True
          have s4: "txn (db w4) \<noteq> None" "outbox w4 = outbox w"
            "faultFree e (queryCount w1) (queryCount w4)" "queryCount w1 \<le> queryCount w4"
            "tg_participants (visible (db w4)) = tg_participants (committed (db w))"
            "committed (db w4) = committed (db w)"
            using p14 f4 b vis1 by (simp_all add: txnProgress_def)
          obtain r5 w5 where q5: "query e Commit w4 = (r5, w5)" by (cases "query e Commit w4")
          show ?thesis
          proof (cases "r5 = QueryError")
            case True
            then have "(f, w') = (Thrown, w5)" using run unfold Inr g4 f4 q5 by simp
            moreover have "committed (db w5) = committed (db w)"
              using q5 True s4(6) by (auto simp: query_Commit split: if_splits)
            ultimately show ?thesis by simp
          next
            case ok5: False
            then have res: "(f, w') = (Proceed, sendMessage c (SuccessNotice (length groups) c4 s4) w5)"
              using run unfold Inr g4 f4 q5 by (cases r5) simp_all
            have c5: "\<not> env_faults e (queryCount w4)" "queryCount w5 = Suc (queryCount w4)"
              "committed (db w5) = visible (db w4)" "txn (db w5) = None" "outbox w5 = outbox w4"
              using q5 ok5 by (auto simp: query_Commit split: if_splits)
            have ff: "faultFree e (queryCount w) (queryCount w5)"
              unfolding c5(2)
              by (intro faultFree_append[OF _ faultFree_single[OF c5(1)]]
                    faultFree_append[OF faultFree_single[OF b(1)]])
                 (use s4(3) b(2) in simp)
            show ?thesis
              using res c5 s4 ff by (auto simp: sendMessage_def)
          qed
        qed
      qed
    qed
  qed
qed

lemma createGroupsAndAssign_outcome:
  assumes closed: "txn (db w) = None"
  shows "txn (db (createGroupsAndAssign e c names pm n rs w)) = None \<and>
         (committed (db (createGroupsAndAssign e c names pm n rs w)) = committed (db w) \<or>
          (\<exists>k a s. outbox (createGroupsAndAssign e c names pm n rs w) = outbox w @ [(c, SuccessNotice k a s)]) \<and>
            faultFree e (queryCount w) (queryCount (createGroupsAndAssign e c names pm n rs w)) \<and>
            tg_participants (committed (db (createGroupsAndAssign e c names pm n rs w)))
              = tg_participants (committed (db w)))"
proof -
  obtain f w1 where t: "tryCreateGroups e c names pm n rs w = (f, w1)"
    by (cases "tryCreateGroups e c names pm n rs w")
  note o = tryCreateGroups_outcome[OF closed t]
  show ?thesis
  proof (cases "f = Thrown")
    case True
    then have "createGroupsAndAssign e c names pm n rs w =
               sendMessage c UnexpectedErrorNotice (snd (query e Rollback w1))"
      using t by (simp add: createGroupsAndAssign_def)
    moreover have "committed (db w1) = committed (db w)" using o True by simp
    ultimately show ?thesis by (simp add: query_Rollback sendMessage_def)
  next
    case False
    then have "createGroupsAndAssign e c names pm n rs w = w1"
      using t by (cases f) (simp_all add: createGroupsAndAssign_def)
    then show ?thesis using o False by auto
  qed
qed

section \<open>Properties of the message listener\<close>

lemma isRateLimited_frame:
  "db (snd (isRateLimited u now w)) = db w"
  "outbox (snd (isRateLimited u now w)) = outbox w"
  "userState (snd (isRateLimited u now w)) = userState w"
  "queryCount (snd (isRateLimited u now w)) = queryCount w"
  "drawCount (snd (isRateLimited u now w)) = drawCount w"
  by (simp_all add: isRateLimited_def split: option.splits)


lemma awaitingRestrictions_outcome:
  assumes closed: "txn (db w) = None"
  shows "txn (db (awaitingRestrictions e c u txt sd w)) = None \<and>
     (committed (db (awaitingRestrictions e c u txt sd w)) = committed (db w) \<or>
      (\<exists>p k a s. outbox (awaitingRestrictions e c u txt sd w) =
           outbox w @ [(c, ProcessingNotice (numGroups sd) p), (c, SuccessNotice k a s)]) \<and>
      faultFree e (queryCount w) (queryCount (awaitingRestrictions e c u txt sd w)) \<and>
      tg_participants (committed (db (awaitingRestrictions e c u txt sd w)))
        = tg_participants (committed (db w)))"
proof (cases "isAdmin e u")
  case False
  then show ?thesis using closed
    by (simp add: awaitingRestrictions_def deleteState_def sendMessage_def)
next
  case True
  define parsed where "parsed = (case txt of None \<Rightarrow> Some []
                 | Some t \<Rightarrow> validateRestrictionsInput t (map snd (participants sd)))"
  show ?thesis
  proof (cases parsed)
    case None
    then show ?thesis using closed True unfolding parsed_def
      by (simp add: awaitingRestrictions_def sendMessage_def Let_def)
  next
    case (Some rs)
    define w1 where "w1 = deleteState c (sendMessage c (ProcessingNotice (numGroups sd) (length rs)) w)"
    define w2 where "w2 = createGroupsAndAssign e c (map snd (participants sd))
                            (participantMapOf (participants sd)) (numGroups sd) rs w1"
    have eq: "awaitingRestrictions e c u txt sd w = deleteState c w2"
      using True Some unfolding parsed_def w1_def w2_def
      by (simp add: awaitingRestrictions_def Let_def)
    have w1: "txn (db w1) = None" "committed (db w1) = committed (db w)"
      "outbox w1 = outbox w @ [(c, ProcessingNotice (numGroups sd) (length rs))]"
      "queryCount w1 = queryCount w"
      using closed by (simp_all add: w1_def deleteState_def sendMessage_def)
    note o = createGroupsAndAssign_outcome[OF w1(1), of e c "map snd (participants sd)"
                "participantMapOf (participants sd)" "numGroups sd" rs, folded w2_def]
    have d: "db (deleteState c w2) = db w2" "outbox (deleteState c w2) = outbox w2"
      "queryCount (deleteState c w2) = queryCount w2"
      by (simp_all add: deleteState_def)
    show ?thesis unfolding eq d using o w1 by auto
  qed
qed




text \<open>
  Claim C9. The chain of comparisons never selects the second
  \<^verbatim>\<open>awaiting_num_groups\<close> branch: whatever the state string is, an earlier comparison
  of the chain has matched before, the first \<^verbatim>\<open>awaiting_num_groups\<close> branch for that
  very string. The listener runs the unfinished handler only on that selection, so it
  never runs it: for every message and every state of the process the listener does
  what it would do with the branch deleted.
\<close>

theorem duplicate_num_groups_branch_dead:
  "selectBranch st \<noteq> SecondNumGroupsBranch \<and>
   (selectBranch st = NumGroupsBranch) = (st = ''awaiting_num_groups'') \<and>
   onMessage e now msg w = listenerWithoutDuplicate e now msg w"
proof -
  have chain: "selectBranch st \<noteq> SecondNumGroupsBranch"
    "(selectBranch st = NumGroupsBranch) = (st = ''awaiting_num_groups'')" for st
    by (simp_all add: selectBranch_def)
  have same: "onMessage e now msg w = listenerWithoutDuplicate e now msg w"
    unfolding onMessage_def listenerWithoutDuplicate_def Let_def
    by (simp add: selectBranch_def split: option.splits)
  show ?thesis using chain same by blast
qed











lemma onMessage_wishlist_route:
  assumes "userState w (msg_chat msg) = Some sd" "state sd = ''awaiting_wishlist''"
    and "\<not> fst (isRateLimited (msg_from msg) now w)" "\<not> isCommand (msg_text msg)"
  shows "onMessage e now msg w =
         awaitingWishlist e (msg_chat msg) (msg_text msg) sd (snd (isRateLimited (msg_from msg) now w))"
  using assms by (simp add: onMessage_def Let_def isRateLimited_frame selectBranch_def)

section \<open>No handler leaves a transaction open\<close>

text \<open>
  The runs of the orchestration assume that no transaction is open when the message
  arrives. That holds whenever it held before the previous message: every handler,
  the unfinished one included, ends with the transaction closed.
\<close>


lemma query_keeps_closed:
  assumes "txn (db w) = None" "s \<noteq> Begin"
  shows "txn (db (snd (query e s w))) = None"
proof (cases "s = Commit \<or> s = Rollback")
  case True
  then show ?thesis by (auto simp: query_Commit query_Rollback)
next
  case False
  then have "s \<noteq> Begin" "s \<noteq> Commit" "s \<noteq> Rollback" using assms(2) by auto
  then show ?thesis using assms(1) by (simp add: query_write store_def)
qed

lemma db_sendMessage [simp]: "db (sendMessage c r w) = db w"
  by (simp add: sendMessage_def)

lemma db_deleteState [simp]: "db (deleteState c w) = db w"
  by (simp add: deleteState_def)

lemma db_setState [simp]: "db (setState c sd w) = db w"
  by (simp add: setState_def)

lemma closed_awaitingName: "txn (db w) = None \<Longrightarrow> txn (db (awaitingName c txt sd w)) = None"
  by (simp add: awaitingName_def split: option.splits)

lemma closed_awaitingWishlist: "txn (db w) = None \<Longrightarrow> txn (db (awaitingWishlist e c txt sd w)) = None"
  by (simp add: awaitingWishlist_def Let_def query_keeps_closed split: option.splits result.splits)

lemma closed_awaitingNameForAssignment:
  assumes "txn (db w) = None"
  shows "txn (db (awaitingNameForAssignment e c txt w)) = None"
proof (cases "case txt of None \<Rightarrow> None | Some t \<Rightarrow> validateName t")
  case None
  then show ?thesis using assms by (simp add: awaitingNameForAssignment_def)
next
  case (Some nm)
  obtain r1 w1 where q1: "query e (SelectAssignment nm) w = (r1, w1)"
    by (cases "query e (SelectAssignment nm) w")
  have c1: "txn (db w1) = None"
    using query_keeps_closed[OF assms, of "SelectAssignment nm" e] q1 by simp
  obtain r2 w2 where q2: "query e (SelectParticipantExists nm) w1 = (r2, w2)"
    by (cases "query e (SelectParticipantExists nm) w1")
  have c2: "txn (db w2) = None"
    using query_keeps_closed[OF c1, of "SelectParticipantExists nm" e] q2 by simp
  show ?thesis
    using Some q1 q2 c1 c2
    by (simp add: awaitingNameForAssignment_def split: result.splits list.splits)
qed

lemma closed_awaitingClearConfirmation:
  assumes "txn (db w) = None"
  shows "txn (db (awaitingClearConfirmation e c u txt w)) = None"
proof -
  obtain r1 w1 where q1: "query e TruncateAll w = (r1, w1)" by (cases "query e TruncateAll w")
  have c1: "txn (db w1) = None"
    using query_keeps_closed[OF assms, of TruncateAll e] q1 by simp
  show ?thesis
    using assms q1 c1 by (simp add: awaitingClearConfirmation_def split: result.splits)
qed

lemma closed_awaitingNumGroups:
  "txn (db w) = None \<Longrightarrow> txn (db (awaitingNumGroups e c u txt sd w)) = None"
  by (simp add: awaitingNumGroups_def split: option.splits)

lemma closed_awaitingNumGroupsUnfinished:
  assumes "txn (db w) = None"
  shows "txn (db (awaitingNumGroupsUnfinished e c u txt sd w)) = None"
proof -
  have rb: "txn (db (snd (query e Rollback v))) = None" for v
    by (simp add: query_Rollback)
  have tail: "txn (db
      (case query e SelectParticipantsById w1 of
         (QueryError, w2) \<Rightarrow>
           (case query e Rollback w2 of
              (QueryError, w3) \<Rightarrow> w3
            | (r, w3) \<Rightarrow> sendMessage c GroupCreationFailedNotice w3)
       | (rows, w2) \<Rightarrow>
           (case query e Rollback (sendMessage c GroupingNotImplementedNotice w2) of
              (QueryError, w3) \<Rightarrow>
                (case query e Rollback w3 of
                   (QueryError, w4) \<Rightarrow> w4
                 | (r, w4) \<Rightarrow> sendMessage c GroupCreationFailedNotice w4)
            | (r, w3) \<Rightarrow> w3))) = None" for w1
  proof -
    obtain r2 w2 where q2: "query e SelectParticipantsById w1 = (r2, w2)"
      by (cases "query e SelectParticipantsById w1")
    obtain r3 w3 where q3: "query e Rollback w2 = (r3, w3)" by (cases "query e Rollback w2")
    obtain r4 w4 where q4: "query e Rollback (sendMessage c GroupingNotImplementedNotice w2) = (r4, w4)"
      by (cases "query e Rollback (sendMessage c GroupingNotImplementedNotice w2)")
    obtain r5 w5 where q5: "query e Rollback w4 = (r5, w5)" by (cases "query e Rollback w4")
    have k: "txn (db w3) = None" "txn (db w4) = None" "txn (db w5) = None"
      using rb[of w2] rb[of "sendMessage c GroupingNotImplementedNotice w2"] rb[of w4] q3 q4 q5
      by simp_all
    show ?thesis
      unfolding q2
      by (cases r2; cases r3; cases r4; cases r5) (simp_all add: q3 q4 q5 k)
  qed
  show ?thesis
    unfolding awaitingNumGroupsUnfinished_def Let_def
    using assms tail by (simp split: option.splits)
qed

lemma closed_onMessage:
  assumes "txn (db w) = None"
  shows "txn (db (onMessage e now msg w)) = None"
proof -
  define w1 where "w1 = snd (isRateLimited (msg_from msg) now w)"
  have c1: "txn (db w1) = None" using assms by (simp add: w1_def isRateLimited_frame)
  have un: "\<And>sd. txn (db (awaitingNumGroupsUnfinished e (msg_chat msg) (msg_from msg) (msg_text msg) sd w1)) = None"
    using c1 by (rule closed_awaitingNumGroupsUnfinished)
  have re: "\<And>sd. txn (db (awaitingRestrictions e (msg_chat msg) (msg_from msg) (msg_text msg) sd w1)) = None"
    using awaitingRestrictions_outcome[OF c1] by blast
  have eq: "onMessage e now msg w =
     (if fst (isRateLimited (msg_from msg) now w) then sendMessage (msg_chat msg) RateLimitedNotice w1
      else if isCommand (msg_text msg) then
        (if userState w1 (msg_chat msg) \<noteq> None then deleteState (msg_chat msg) w1 else w1)
      else
        case userState w1 (msg_chat msg) of
          None \<Rightarrow> w1
        | Some sd \<Rightarrow>
            (case selectBranch (state sd) of
               NameBranch \<Rightarrow> awaitingName (msg_chat msg) (msg_text msg) sd w1
             | WishlistBranch \<Rightarrow> awaitingWishlist e (msg_chat msg) (msg_text msg) sd w1
             | NameForAssignmentBranch \<Rightarrow> awaitingNameForAssignment e (msg_chat msg) (msg_text msg) w1
             | ClearConfirmationBranch \<Rightarrow>
                 awaitingClearConfirmation e (msg_chat msg) (msg_from msg) (msg_text msg) w1
             | NumGroupsBranch \<Rightarrow> awaitingNumGroups e (msg_chat msg) (msg_from msg) (msg_text msg) sd w1
             | RestrictionsBranch \<Rightarrow>
                 awaitingRestrictions e (msg_chat msg) (msg_from msg) (msg_text msg) sd w1
             | SecondNumGroupsBranch \<Rightarrow>
                 awaitingNumGroupsUnfinished e (msg_chat msg) (msg_from msg) (msg_text msg) sd w1
             | NoBranch \<Rightarrow> w1))"
    unfolding w1_def by (simp add: onMessage_def Let_def)
  show ?thesis
    unfolding eq
    using c1 un re closed_awaitingName[OF c1] closed_awaitingWishlist[OF c1]
      closed_awaitingNameForAssignment[OF c1] closed_awaitingClearConfirmation[OF c1]
      closed_awaitingNumGroups[OF c1]
    by (simp split: option.splits branch.splits)
qed

lemma closed_commandHandlers:
  assumes "txn (db w) = None"
  shows "txn (db (commandHandlers e now msg t w)) = None"
proof -
  have rl: "txn (db (snd (isRateLimited u now v))) = None" if "txn (db v) = None" for u v
    using that by (simp add: isRateLimited_frame)
  have s: "txn (db (onStart msg v)) = None" if "txn (db v) = None" for v
    using that by (simp add: onStart_def)
  have r: "txn (db (onRegister now msg v)) = None" if "txn (db v) = None" for v
    using rl[OF that] by (simp add: onRegister_def Let_def)
  have m: "txn (db (onMyAssignment now msg v)) = None" if "txn (db v) = None" for v
    using rl[OF that] by (simp add: onMyAssignment_def Let_def)
  have p: "txn (db (onParticipants e now msg v)) = None" if "txn (db v) = None" for v
  proof -
    define v1 where "v1 = snd (isRateLimited (msg_from msg) now v)"
    have k1: "txn (db v1) = None" unfolding v1_def by (rule rl[OF that])
    obtain r2 v2 where q: "query e SelectParticipantsByName v1 = (r2, v2)"
      by (cases "query e SelectParticipantsByName v1")
    have k2: "txn (db v2) = None"
      using query_keeps_closed[OF k1, of SelectParticipantsByName e] q by simp
    show ?thesis
      using k1 k2 q unfolding onParticipants_def Let_def v1_def[symmetric]
      by (simp split: result.splits list.splits)
  qed
  have c: "txn (db (onClearData e now msg v)) = None" if "txn (db v) = None" for v
    using rl[OF that] by (simp add: onClearData_def Let_def)
  have g: "txn (db (onCreateGroups e now msg v)) = None" if "txn (db v) = None" for v
  proof -
    define v1 where "v1 = snd (isRateLimited (msg_from msg) now v)"
    have k1: "txn (db v1) = None" unfolding v1_def by (rule rl[OF that])
    obtain r2 v2 where q: "query e SelectParticipants v1 = (r2, v2)"
      by (cases "query e SelectParticipants v1")
    have k2: "txn (db v2) = None"
      using query_keeps_closed[OF k1, of SelectParticipants e] q by simp
    show ?thesis
      using k1 k2 q unfolding onCreateGroups_def Let_def v1_def[symmetric]
      by (simp split: result.splits)
  qed
  show ?thesis
    unfolding commandHandlers_def Let_def
    using assms s r m p c g by simp
qed

lemma dispatch_leaves_no_transaction:
  assumes "txn (db w) = None"
  shows "txn (db (dispatch e now msg w)) = None"
  using closed_onMessage[OF assms, of e now msg] closed_commandHandlers
  by (simp add: dispatch_def Let_def split: option.splits)

end
